theory Spec2Isabelle
  imports Main "HOL-Library.Word"
begin

section \<open>JavaScript strings and values\<close>

text \<open>
  A JavaScript string is a sequence of UTF-16 code units. Strings that arrive from outside
  (JSON strings, property names, the salt) are lists of 16-bit words. The strings the program
  itself writes, and those that stay within one byte per code unit (header values, tokens,
  hexadecimal digests, paths), are HOL strings; \<open>utf16\<close> gives the JavaScript string of
  one.
\<close>

type_synonym js_string = "16 word list"

definition utf16 :: "string \<Rightarrow> js_string" where
  "utf16 s = map (\<lambda>c. of_nat (of_char c)) s"

text \<open>
  A value as \<open>request.json()\<close> delivers it, and \<open>JUndefined\<close> for a property that is
  absent. \<open>JObj\<close> lists the properties of the parsed object, each name once. Of a number
  the program only ever tests whether it is zero.
\<close>

datatype js_value =
    JUndefined
  | JNull
  | JBool bool
  | JNum int
  | JStr js_string
  | JArr "js_value list"
  | JObj "(js_string \<times> js_value) list"

text \<open>A string and an object literal of the program.\<close>

definition str :: "string \<Rightarrow> js_value" where
  "str s = JStr (utf16 s)"

definition obj :: "(string \<times> js_value) list \<Rightarrow> js_value" where
  "obj kvs = JObj (map (\<lambda>(k, v). (utf16 k, v)) kvs)"

text \<open>ToBoolean, as \<open>!x\<close> and \<open>x && y\<close> apply it.\<close>

fun truthy :: "js_value \<Rightarrow> bool" where
  "truthy JUndefined = False"
| "truthy JNull = False"
| "truthy (JBool b) = b"
| "truthy (JNum n) = (n \<noteq> 0)"
| "truthy (JStr s) = (s \<noteq> [])"
| "truthy (JArr xs) = True"
| "truthy (JObj kvs) = True"

text \<open>
  \<open>requestBody?.key\<close>: \<open>undefined\<close> on \<open>null\<close>, on a primitive and on an array (none of
  them has one of the property names the server reads), the property's value on an object.
\<close>

fun get_prop :: "js_value \<Rightarrow> string \<Rightarrow> js_value" where
  "get_prop (JObj kvs) k = (case map_of kvs (utf16 k) of None \<Rightarrow> JUndefined | Some v \<Rightarrow> v)"
| "get_prop _ k = JUndefined"

section \<open>The process environment and the platform primitives\<close>

text \<open>
  What the process is started with and the primitives of the runtime that the server calls:
  the variable \<open>EMAIL_SALT\<close>, \<open>crypto.subtle.digest("SHA-256", _)\<close>,
  \<open>Bun.password.hash\<close> (its second argument here is the random salt it draws),
  \<open>Bun.password.verify\<close>, and \<open>String.prototype.toLowerCase\<close> and \<open>toUpperCase\<close> with
  the case tables of Unicode. A primitive that throws returns \<open>None\<close>.
\<close>

record env =
  env_EMAIL_SALT :: "js_string option"
  digest_SHA256 :: "8 word list \<Rightarrow> 8 word list"
  Bun_password_hash :: "js_value \<Rightarrow> string \<Rightarrow> string option"
  Bun_password_verify :: "js_value \<Rightarrow> string \<Rightarrow> bool option"
  String_toLowerCase :: "js_string \<Rightarrow> js_string"
  String_toUpperCase :: "js_string \<Rightarrow> js_string"

section \<open>The string built-ins the server calls\<close>

text \<open>White space and line terminators of ECMAScript, which \<open>trim\<close> removes: TAB, LF, VT, FF,
  CR, SP, NBSP, U+1680, U+2000 to U+200A, U+2028, U+2029, U+202F, U+205F, U+3000 and
  U+FEFF.\<close>

definition isWhiteSpace :: "16 word \<Rightarrow> bool" where
  "isWhiteSpace c =
     (let n = uint c
      in n \<in> {0x9, 0xA, 0xB, 0xC, 0xD, 0x20, 0xA0, 0x1680, 0x2028, 0x2029, 0x202F, 0x205F,
               0x3000, 0xFEFF} \<or> (0x2000 \<le> n \<and> n \<le> 0x200A))"

definition trim :: "js_string \<Rightarrow> js_string" where
  "trim s = rev (dropWhile isWhiteSpace (rev (dropWhile isWhiteSpace s)))"

text \<open>
  The code units on which the case mappings are written out below: U+0000 to U+00FF, the
  three code units that the case mappings of these reach (U+0178, U+039C, U+03BC), and white
  space. On a string of such code units the mappings of Unicode work code unit by code unit;
  any other string is left to the built-in of the platform.
\<close>

definition caseTabled :: "16 word \<Rightarrow> bool" where
  "caseTabled c = (uint c < 0x100 \<or> uint c \<in> {0x178, 0x39C, 0x3BC} \<or> isWhiteSpace c)"

text \<open>Lower case: A-Z and the capitals U+00C0 to U+00DE (but the multiplication sign U+00D7)
  move up by 32; U+0178 becomes U+00FF and U+039C becomes U+03BC.\<close>

definition toLowerUnit :: "16 word \<Rightarrow> 16 word" where
  "toLowerUnit c =
     (let n = uint c
      in if (0x41 \<le> n \<and> n \<le> 0x5A) \<or> (0xC0 \<le> n \<and> n \<le> 0xDE \<and> n \<noteq> 0xD7)
         then word_of_int (n + 0x20)
         else if n = 0x178 then 0xFF
         else if n = 0x39C then 0x3BC
         else c)"

definition toLowerCase :: "env \<Rightarrow> js_string \<Rightarrow> js_string" where
  "toLowerCase E s =
     (if list_all caseTabled s then map toLowerUnit s else String_toLowerCase E s)"

text \<open>Upper case: a-z and the small letters U+00E0 to U+00FE (but the division sign U+00F7)
  move down by 32; the sharp s U+00DF becomes \<open>SS\<close>, U+00FF becomes U+0178, and the micro sign
  U+00B5 and U+03BC become U+039C.\<close>

definition toUpperUnit :: "16 word \<Rightarrow> js_string" where
  "toUpperUnit c =
     (let n = uint c
      in if (0x61 \<le> n \<and> n \<le> 0x7A) \<or> (0xE0 \<le> n \<and> n \<le> 0xFE \<and> n \<noteq> 0xF7)
         then [word_of_int (n - 0x20)]
         else if n = 0xDF then [0x53, 0x53]
         else if n = 0xFF then [0x178]
         else if n = 0xB5 \<or> n = 0x3BC then [0x39C]
         else [c])"

definition toUpperCase :: "env \<Rightarrow> js_string \<Rightarrow> js_string" where
  "toUpperCase E s =
     (if list_all caseTabled s then concat (map toUpperUnit s) else String_toUpperCase E s)"

text \<open>
  Two code units that are the capital and the small form of one letter, for the letters whose
  two forms lie 32 apart: A-Z with a-z, and U+00C0 to U+00DE (without U+00D7) with U+00E0 to
  U+00FE.
\<close>

definition isCapital :: "16 word \<Rightarrow> bool" where
  "isCapital c =
     ((0x41 \<le> uint c \<and> uint c \<le> 0x5A) \<or> (0xC0 \<le> uint c \<and> uint c \<le> 0xDE \<and> uint c \<noteq> 0xD7))"

definition casePair :: "16 word \<Rightarrow> 16 word \<Rightarrow> bool" where
  "casePair c d =
     (c = d \<or> (isCapital c \<and> uint d = uint c + 0x20) \<or> (isCapital d \<and> uint c = uint d + 0x20))"

text \<open>\<open>s.replace(pat, "")\<close> with a string pattern: the first occurrence of \<open>pat\<close> is taken
  out, the rest of \<open>s\<close> is kept.\<close>

fun replace_first :: "string \<Rightarrow> string \<Rightarrow> string" where
  "replace_first pat [] = []"
| "replace_first pat (c # cs) =
     (if take (length pat) (c # cs) = pat then drop (length pat) (c # cs)
      else c # replace_first pat cs)"

text \<open>
  \<open>TextEncoder.encode\<close>: UTF-8. A high surrogate followed by a low one is one code point of
  four bytes; a surrogate on its own is encoded as U+FFFD.
\<close>

definition replacement :: "8 word list" where
  "replacement = [0xEF, 0xBF, 0xBD]"

fun encode :: "js_string \<Rightarrow> 8 word list" where
  "encode [] = []"
| "encode (c # cs) =
     (let n = uint c in
      if n < 0x80 then word_of_int n # encode cs
      else if n < 0x800
      then word_of_int (0xC0 + n div 64) # word_of_int (0x80 + n mod 64) # encode cs
      else if 0xD800 \<le> n \<and> n < 0xDC00 then
        (case cs of
           [] \<Rightarrow> replacement
         | d # ds \<Rightarrow>
             if 0xDC00 \<le> uint d \<and> uint d < 0xE000
             then (let p = 0x10000 + (n - 0xD800) * 1024 + (uint d - 0xDC00)
                   in word_of_int (0xF0 + p div 262144) #
                      word_of_int (0x80 + p div 4096 mod 64) #
                      word_of_int (0x80 + p div 64 mod 64) #
                      word_of_int (0x80 + p mod 64) # encode ds)
             else replacement @ encode cs)
      else if 0xDC00 \<le> n \<and> n < 0xE000 then replacement @ encode cs
      else word_of_int (0xE0 + n div 4096) # word_of_int (0x80 + n div 64 mod 64) #
           word_of_int (0x80 + n mod 64) # encode cs)"

text \<open>\<open>byte.toString(16).padStart(2, "0")\<close>, joined.\<close>

definition hexDigit :: "nat \<Rightarrow> char" where
  "hexDigit d = ''0123456789abcdef'' ! (d mod 16)"

definition byteToHex :: "8 word \<Rightarrow> string" where
  "byteToHex b = [hexDigit (unat b div 16), hexDigit (unat b mod 16)]"

definition toHexString :: "8 word list \<Rightarrow> string" where
  "toHexString bs = concat (map byteToHex bs)"

text \<open>\<open>n.toString(36)\<close> for a non-negative integer.\<close>

definition digit36 :: "nat \<Rightarrow> char" where
  "digit36 d = ''0123456789abcdefghijklmnopqrstuvwxyz'' ! (d mod 36)"

fun toString36 :: "nat \<Rightarrow> string" where
  "toString36 n = (if n < 36 then [digit36 n] else toString36 (n div 36) @ [digit36 (n mod 36)])"

declare toString36.simps [simp del]

definition EMAIL_SALT :: "env \<Rightarrow> js_string" where
  "EMAIL_SALT E =
     (case env_EMAIL_SALT E of
        None \<Rightarrow> utf16 ''fallback_salt_value_if_not_set_in_env''
      | Some s \<Rightarrow> if s = [] then utf16 ''fallback_salt_value_if_not_set_in_env'' else s)"

definition createEmailHash :: "env \<Rightarrow> js_string \<Rightarrow> string" where
  "createEmailHash E email =
     (let normalizedEmail = trim (toLowerCase E email);
          saltedEmail = EMAIL_SALT E @ normalizedEmail @ EMAIL_SALT E;
          data = encode saltedEmail;
          hashBuffer = digest_SHA256 E data
      in toHexString hashBuffer)"

section \<open>The user database (\<open>db.ts\<close>) and the server state\<close>

text \<open>A row of the table \<open>users\<close>.\<close>

record user_row =
  row_id :: nat
  email_hash :: string
  password_hash :: string
  created_at :: string

text \<open>The calls the server makes on its collaborators, in the order it makes them
  (console output is left out).\<close>

datatype event =
    ParseRequestBody
  | CreateEmailHash js_string
  | PasswordHash js_value
  | PasswordVerify js_value string
  | GetUserByEmailHash string
  | AddUser string string
  | GetAllUsers
  | UpdatePassword string string
  | SessionAdd string
  | SessionDelete string

text \<open>
  The table of \<open>users.db\<close> with the largest id given so far (AUTOINCREMENT), the set
  \<open>activeSessions\<close>, and the calls made so far. A request is served in one step from
  such a state to the next; requests that overlap at an \<open>await\<close> are not modelled.
\<close>

record state =
  users :: "user_row list"
  sqlite_sequence :: nat
  activeSessions :: "string set"
  trace :: "event list"

text \<open>What a request draws from outside the program while it is served:
  \<open>Math.random().toString(36)\<close>, \<open>Date.now()\<close>, the salt \<open>Bun.password.hash\<close> draws and
  SQLite's \<open>CURRENT_TIMESTAMP\<close>.\<close>

record nondet =
  Math_random_36 :: string
  Date_now :: nat
  password_salt :: string
  CURRENT_TIMESTAMP :: string

datatype exn = TypeError | PasswordError | SQLiteConstraintError

type_synonym 'a io = "state \<Rightarrow> (exn + 'a) \<times> state"

definition return_io :: "'a \<Rightarrow> 'a io" where
  "return_io a s = (Inr a, s)"

definition throw_io :: "exn \<Rightarrow> 'a io" where
  "throw_io e s = (Inl e, s)"

definition bind_io :: "'a io \<Rightarrow> ('a \<Rightarrow> 'b io) \<Rightarrow> 'b io" where
  "bind_io m f s = (case m s of (Inl e, s') \<Rightarrow> (Inl e, s') | (Inr a, s') \<Rightarrow> f a s')"

definition emit :: "event \<Rightarrow> state \<Rightarrow> state" where
  "emit ev s = s\<lparr>trace := trace s @ [ev]\<rparr>"

text \<open>\<open>UNIQUE\<close> on \<open>email_hash\<close>: a second row with the same hash makes the insert throw.\<close>

definition addUser :: "nondet \<Rightarrow> string \<Rightarrow> string \<Rightarrow> nat io" where
  "addUser N emailHash passwordHash s =
     (let s1 = emit (AddUser emailHash passwordHash) s
      in if \<exists>u \<in> set (users s). email_hash u = emailHash
         then (Inl SQLiteConstraintError, s1)
         else let lastInsertRowid = Suc (fold max (map row_id (users s)) (sqlite_sequence s))
              in (Inr lastInsertRowid,
                  s1\<lparr>users := users s @
                        [\<lparr>row_id = lastInsertRowid, email_hash = emailHash,
                          password_hash = passwordHash, created_at = CURRENT_TIMESTAMP N\<rparr>],
                      sqlite_sequence := lastInsertRowid\<rparr>))"

definition getUserByEmailHash :: "string \<Rightarrow> user_row option io" where
  "getUserByEmailHash emailHash s =
     (Inr (find (\<lambda>u. email_hash u = emailHash) (users s)),
      emit (GetUserByEmailHash emailHash) s)"

definition getAllUsers :: "user_row list io" where
  "getAllUsers s = (Inr (users s), emit GetAllUsers s)"

definition updatePassword :: "string \<Rightarrow> string \<Rightarrow> unit io" where
  "updatePassword emailHash newPasswordHash s =
     (Inr (),
      (emit (UpdatePassword emailHash newPasswordHash) s)
        \<lparr>users := map (\<lambda>u. if email_hash u = emailHash
                             then u\<lparr>password_hash := newPasswordHash\<rparr> else u) (users s)\<rparr>)"

section \<open>The server (\<open>index.ts\<close>)\<close>

text \<open>
  A request as the handler reads it: method, path, the value of
  \<open>headers.get("authorization")\<close> (\<open>None\<close> for \<open>null\<close>) and what \<open>request.json()\<close>
  gives (\<open>None\<close> when it rejects).
\<close>

record request =
  req_method :: string
  pathname :: string
  authorization :: "string option"
  json :: "js_value option"

text \<open>A response: status, headers, and the value given to \<open>JSON.stringify\<close> (\<open>None\<close> for a
  \<open>null\<close> body).\<close>

record response =
  status :: nat
  headers :: "(string \<times> string) list"
  body :: "js_value option"

text \<open>\<open>createEmailHash\<close> as the handler calls it: on a value that is not a string,
  \<open>email.toLowerCase\<close> is not a function.\<close>

definition createEmailHash_call :: "env \<Rightarrow> js_value \<Rightarrow> string io" where
  "createEmailHash_call E email s =
     (case email of
        JStr e \<Rightarrow> (Inr (createEmailHash E e), emit (CreateEmailHash e) s)
      | _ \<Rightarrow> (Inl TypeError, s))"

definition parseRequestBody :: "request \<Rightarrow> js_value io" where
  "parseRequestBody request s =
     (Inr (case json request of None \<Rightarrow> JNull | Some v \<Rightarrow> v), emit ParseRequestBody s)"

definition password_hash_call :: "env \<Rightarrow> nondet \<Rightarrow> js_value \<Rightarrow> string io" where
  "password_hash_call E N password s =
     (case Bun_password_hash E password (password_salt N) of
        None \<Rightarrow> (Inl PasswordError, emit (PasswordHash password) s)
      | Some h \<Rightarrow> (Inr h, emit (PasswordHash password) s))"

definition password_verify_call :: "env \<Rightarrow> js_value \<Rightarrow> string \<Rightarrow> bool io" where
  "password_verify_call E password hash s =
     (case Bun_password_verify E password hash of
        None \<Rightarrow> (Inl PasswordError, emit (PasswordVerify password hash) s)
      | Some b \<Rightarrow> (Inr b, emit (PasswordVerify password hash) s))"

definition createSessionToken :: "nondet \<Rightarrow> string" where
  "createSessionToken N = drop 2 (Math_random_36 N) @ toString36 (Date_now N)"

definition sessions_add :: "string \<Rightarrow> unit io" where
  "sessions_add t s =
     (Inr (), (emit (SessionAdd t) s)\<lparr>activeSessions := insert t (activeSessions s)\<rparr>)"

definition sessions_delete :: "string \<Rightarrow> unit io" where
  "sessions_delete t s =
     (Inr (), (emit (SessionDelete t) s)\<lparr>activeSessions := activeSessions s - {t}\<rparr>)"

definition sessions_has :: "string \<Rightarrow> bool io" where
  "sessions_has t s = (Inr (t \<in> activeSessions s), s)"

definition corsHeaders :: "(string \<times> string) list" where
  "corsHeaders =
     [(''Access-Control-Allow-Origin'', ''*''),
      (''Access-Control-Allow-Methods'', ''GET, POST, OPTIONS''),
      (''Access-Control-Allow-Headers'', ''Content-Type, Authorization'')]"

definition json_response :: "nat \<Rightarrow> js_value \<Rightarrow> response" where
  "json_response code v =
     \<lparr>status = code, headers = (''Content-Type'', ''application/json'') # corsHeaders,
      body = Some v\<rparr>"

definition error_response :: "nat \<Rightarrow> string \<Rightarrow> response" where
  "error_response code msg = json_response code (obj [(''error'', str msg)])"

text \<open>\<open>request.headers.get("authorization")?.replace("Bearer ", "")\<close>\<close>

definition sessionToken_of :: "request \<Rightarrow> string option" where
  "sessionToken_of request = map_option (replace_first ''Bearer '') (authorization request)"

text \<open>\<open>sessionToken && activeSessions.has(sessionToken)\<close>\<close>

definition authenticated :: "request \<Rightarrow> bool io" where
  "authenticated request =
     (case sessionToken_of request of
        None \<Rightarrow> return_io False
      | Some t \<Rightarrow> if t = [] then return_io False else sessions_has t)"

definition handle_register :: "env \<Rightarrow> nondet \<Rightarrow> request \<Rightarrow> response io" where
  "handle_register E N request =
     bind_io (parseRequestBody request) (\<lambda>requestBody.
     if \<not> truthy (get_prop requestBody ''email'') \<or> \<not> truthy (get_prop requestBody ''password'')
     then return_io (error_response 400 ''Email and password required'')
     else
       bind_io (createEmailHash_call E (get_prop requestBody ''email'')) (\<lambda>emailHash.
       bind_io (password_hash_call E N (get_prop requestBody ''password'')) (\<lambda>passwordHash.
       bind_io (getUserByEmailHash emailHash) (\<lambda>existingUser.
       if existingUser \<noteq> None
       then return_io (error_response 400 ''User already exists'')
       else
         bind_io (addUser N emailHash passwordHash) (\<lambda>result.
         let sessionToken = createSessionToken N in
         bind_io (sessions_add sessionToken) (\<lambda>_.
         return_io (json_response 200
           (obj [(''success'', JBool True),
                  (''message'', str ''User registered successfully''),
                  (''sessionId'', str sessionToken)]))))))))"

definition handle_login :: "env \<Rightarrow> nondet \<Rightarrow> request \<Rightarrow> response io" where
  "handle_login E N request =
     bind_io (parseRequestBody request) (\<lambda>requestBody.
     if \<not> truthy (get_prop requestBody ''email'') \<or> \<not> truthy (get_prop requestBody ''password'')
     then return_io (error_response 400 ''Email and password required'')
     else
       bind_io (createEmailHash_call E (get_prop requestBody ''email'')) (\<lambda>emailHash.
       bind_io (getUserByEmailHash emailHash) (\<lambda>user.
       case user of
         None \<Rightarrow> return_io (error_response 401 ''Invalid credentials'')
       | Some u \<Rightarrow>
           bind_io (password_verify_call E (get_prop requestBody ''password'') (password_hash u))
             (\<lambda>isPasswordValid.
           if \<not> isPasswordValid
           then return_io (error_response 401 ''Invalid credentials'')
           else
             let sessionToken = createSessionToken N in
             bind_io (sessions_add sessionToken) (\<lambda>_.
             return_io (json_response 200
               (obj [(''success'', JBool True),
                      (''message'', str ''Login successful''),
                      (''sessionId'', str sessionToken)])))))))"

definition user_json :: "user_row \<Rightarrow> js_value" where
  "user_json u =
     obj [(''id'', JNum (int (row_id u))), (''email_hash'', str (email_hash u)),
           (''password_hash'', str (password_hash u)), (''created_at'', str (created_at u))]"

definition handle_users :: "request \<Rightarrow> response io" where
  "handle_users request =
     bind_io (authenticated request) (\<lambda>ok.
     if \<not> ok then return_io (error_response 401 ''Authentication required'')
     else
       bind_io getAllUsers (\<lambda>allUsers.
       return_io (json_response 200
         (obj [(''success'', JBool True),
                (''message'', str ''All users retrieved (showing hashed data for security proof)''),
                (''users'', JArr (map user_json allUsers)),
                (''total_users'', JNum (int (length allUsers))),
                (''security_note'',
                   str ''Emails: SHA-256 + deterministic salt, Passwords: Argon2id + random salt'')]))))"

definition handle_reset_password :: "env \<Rightarrow> nondet \<Rightarrow> request \<Rightarrow> response io" where
  "handle_reset_password E N request =
     bind_io (authenticated request) (\<lambda>ok.
     if \<not> ok then return_io (error_response 401 ''Authentication required'')
     else
       bind_io (parseRequestBody request) (\<lambda>requestBody.
       if \<not> truthy (get_prop requestBody ''email'') \<or>
          \<not> truthy (get_prop requestBody ''currentPassword'') \<or>
          \<not> truthy (get_prop requestBody ''newPassword'')
       then return_io (error_response 400 ''Email, current password, and new password required'')
       else
         bind_io (createEmailHash_call E (get_prop requestBody ''email'')) (\<lambda>emailHash.
         bind_io (getUserByEmailHash emailHash) (\<lambda>user.
         case user of
           None \<Rightarrow> return_io (error_response 404 ''User not found'')
         | Some u \<Rightarrow>
             bind_io (password_verify_call E (get_prop requestBody ''currentPassword'')
                        (password_hash u)) (\<lambda>isCurrentPasswordValid.
             if \<not> isCurrentPasswordValid
             then return_io (error_response 401 ''Current password is incorrect'')
             else
               bind_io (password_hash_call E N (get_prop requestBody ''newPassword''))
                 (\<lambda>newPasswordHash.
               bind_io (updatePassword emailHash newPasswordHash) (\<lambda>_.
               return_io (json_response 200
                 (obj [(''success'', JBool True),
                        (''message'', str ''Password updated successfully'')])))))))))"

definition handle_logout :: "request \<Rightarrow> response io" where
  "handle_logout request =
     (case sessionToken_of request of
        None \<Rightarrow> return_io (error_response 400 ''No active session found'')
      | Some sessionToken \<Rightarrow>
          bind_io (sessions_has sessionToken) (\<lambda>has.
          if sessionToken \<noteq> [] \<and> has
          then
            bind_io (sessions_delete sessionToken) (\<lambda>_.
            return_io (json_response 200
              (obj [(''success'', JBool True), (''message'', str ''Logged out successfully'')])))
          else return_io (error_response 400 ''No active session found'')))"

text \<open>\<open>requestBody.email.toUpperCase()\<close>\<close>

definition toUpperCase_call :: "env \<Rightarrow> js_value \<Rightarrow> js_string io" where
  "toUpperCase_call E v =
     (case v of JStr e \<Rightarrow> return_io (toUpperCase E e) | _ \<Rightarrow> throw_io TypeError)"

definition handle_test_hash :: "env \<Rightarrow> request \<Rightarrow> response io" where
  "handle_test_hash E request =
     bind_io (parseRequestBody request) (\<lambda>requestBody.
     if \<not> truthy (get_prop requestBody ''email'')
     then return_io (error_response 400 ''Email required'')
     else
       bind_io (createEmailHash_call E (get_prop requestBody ''email'')) (\<lambda>firstHash.
       bind_io (createEmailHash_call E (get_prop requestBody ''email'')) (\<lambda>secondHash.
       bind_io (toUpperCase_call E (get_prop requestBody ''email'')) (\<lambda>upper.
       bind_io (createEmailHash_call E (JStr upper)) (\<lambda>upperCaseHash.
       return_io (json_response 200
         (obj [(''email'', get_prop requestBody ''email''),
                (''hash1'', str firstHash),
                (''hash2'', str secondHash),
                (''hash3'', str upperCaseHash),
                (''same_email_same_hash'', JBool (firstHash = secondHash)),
                (''case_insensitive'', JBool (firstHash = upperCaseHash)),
                (''deterministic'',
                   JBool (firstHash = secondHash \<and> secondHash = upperCaseHash)),
                (''message'',
                   str (if firstHash = secondHash \<and> secondHash = upperCaseHash
                         then ''Email hashing is working correctly''
                         else ''Email hashing has issues''))])))))))"

definition api_info :: js_value where
  "api_info =
     obj [(''message'', str ''Secure Authentication API''),
           (''version'', str ''1.0.0''),
           (''security'',
              obj [(''email_hashing'', str ''SHA-256 with deterministic salt''),
                    (''password_hashing'', str ''Argon2id with random salt''),
                    (''duplicate_prevention'', str ''Enabled via deterministic email hashing'')]),
           (''endpoints'',
              obj [(''POST /register'', str ''Register new user (email, password)''),
                    (''POST /login'', str ''Login user (email, password)''),
                    (''GET /users'',
                       str ''Get all users - protected (Authorization: Bearer <sessionId>)''),
                    (''POST /reset-password'',
                       str ''Reset password - protected (email, currentPassword, newPassword)''),
                    (''POST /logout'', str ''Logout user - protected''),
                    (''POST /debug/test-hash'', str ''Test email hashing - development only'')]),
           (''example_usage'',
              obj [(''register'',
                       str (''POST /register with {\"email\": \"user@example.com\", '' @
                             ''\"password\": \"securepass123\"}'')),
                    (''login'',
                       str (''POST /login with {\"email\": \"user@example.com\", '' @
                             ''\"password\": \"securepass123\"}'')),
                    (''protected_request'',
                       str ''Add header: Authorization: Bearer <sessionId_from_login>'')])]"

definition route_not_found :: js_value where
  "route_not_found =
     obj [(''error'', str ''Route not found''),
           (''available_routes'',
              JArr [str ''/'', str ''/register'', str ''/login'', str ''/users'',
                    str ''/reset-password'', str ''/logout''])]"

text \<open>The body of the \<open>try\<close> block of \<open>fetch\<close>: the routes in the order of the source.\<close>

definition route :: "env \<Rightarrow> nondet \<Rightarrow> request \<Rightarrow> response io" where
  "route E N request =
     (if pathname request = ''/register'' \<and> req_method request = ''POST''
      then handle_register E N request
      else if pathname request = ''/login'' \<and> req_method request = ''POST''
      then handle_login E N request
      else if pathname request = ''/users'' \<and> req_method request = ''GET''
      then handle_users request
      else if pathname request = ''/reset-password'' \<and> req_method request = ''POST''
      then handle_reset_password E N request
      else if pathname request = ''/logout'' \<and> req_method request = ''POST''
      then handle_logout request
      else if pathname request = ''/debug/test-hash'' \<and> req_method request = ''POST''
      then handle_test_hash E request
      else if pathname request = ''/'' \<and> req_method request = ''GET''
      then return_io (json_response 200 api_info)
      else return_io (json_response 404 route_not_found))"

definition internal_server_error :: response where
  "internal_server_error =
     json_response 500
       (obj [(''error'', str ''Internal server error''),
              (''message'', str ''Something went wrong on the server'')])"

text \<open>\<open>fetch\<close>: the answer to \<open>OPTIONS\<close>, the routes, and the \<open>catch\<close> that turns whatever
  a route throws into the 500 response. The state keeps what was done before the throw.\<close>

definition fetch :: "env \<Rightarrow> nondet \<Rightarrow> request \<Rightarrow> state \<Rightarrow> response \<times> state" where
  "fetch E N request s =
     (if req_method request = ''OPTIONS''
      then (\<lparr>status = 200, headers = corsHeaders, body = None\<rparr>, s)
      else case route E N request s of
             (Inr r, s') \<Rightarrow> (r, s')
           | (Inl error, s') \<Rightarrow> (internal_server_error, s'))"

text \<open>What step 3 of a reset checks, read off a request and a state: the body names a
  registered e-mail and \<open>Bun.password.verify\<close> accepts its \<open>currentPassword\<close> against the
  stored hash.\<close>

definition verifies_current_password :: "env \<Rightarrow> request \<Rightarrow> state \<Rightarrow> bool" where
  "verifies_current_password E request s =
     (case json request of
        None \<Rightarrow> False
      | Some b \<Rightarrow>
          (case get_prop b ''email'' of
             JStr e \<Rightarrow>
               (case find (\<lambda>u. email_hash u = createEmailHash E e) (users s) of
                  None \<Rightarrow> False
                | Some u \<Rightarrow>
                    Bun_password_verify E (get_prop b ''currentPassword'') (password_hash u)
                      = Some True)
           | _ \<Rightarrow> False))"

section \<open>Tokens and the states the server reaches\<close>

definition isBase36 :: "char \<Rightarrow> bool" where
  "isBase36 c = (c \<in> set ''0123456789abcdefghijklmnopqrstuvwxyz'')"

text \<open>\<open>Math.random()\<close> lies in [0, 1), so its rendering in base 36 is \<open>0\<close> or \<open>0.\<close> followed by
  digits.\<close>

definition random36_ok :: "string \<Rightarrow> bool" where
  "random36_ok r =
     (r = ''0'' \<or> (take 2 r = ''0.'' \<and> drop 2 r \<noteq> [] \<and> list_all isBase36 (drop 2 r)))"

text \<open>The process starts with an empty set of sessions and whatever \<open>users.db\<close> holds, and
  serves one request after the other.\<close>

inductive reachable :: "env \<Rightarrow> state \<Rightarrow> bool" for E :: env where
  start: "activeSessions s = {} \<Longrightarrow> reachable E s"
| serve: "reachable E s \<Longrightarrow> random36_ok (Math_random_36 N) \<Longrightarrow>
          reachable E (snd (fetch E N request s))"

section \<open>A small instance of the platform\<close>

text \<open>
  Stand-ins for the runtime's primitives, small enough to evaluate: a digest of two bytes, and
  a password hash that keeps the salt and the UTF-8 bytes of the password, in hexadecimal,
  behind the tag \<open>$demo$\<close>. \<open>demo_hash\<close> throws on the empty password. \<open>demo_verify\<close>
  answers false on the empty hash and throws on any other hash without the tag, as
  \<open>Bun.password.verify\<close> does on \<open>not-an-encoded-hash\<close>. On a password that is not a
  string both return (a fixed mark, and false); how the runtime converts such a password is
  not followed. Beyond the code units tabled above the case built-ins are the identity here.
\<close>

definition demo_digest :: "8 word list \<Rightarrow> 8 word list" where
  "demo_digest bs = [of_nat (length bs), fold (+) bs 0]"

definition demo_hash :: "js_value \<Rightarrow> string \<Rightarrow> string option" where
  "demo_hash password salt =
     (case password of
        JStr p \<Rightarrow>
          if p = [] then None else Some (''$demo$'' @ salt @ ''$'' @ toHexString (encode p))
      | _ \<Rightarrow> Some (''$demo$'' @ salt @ ''$-''))"

definition demo_verify :: "js_value \<Rightarrow> string \<Rightarrow> bool option" where
  "demo_verify password hash =
     (if hash = [] then Some False
      else if take 6 hash \<noteq> ''$demo$'' then None
      else case password of
             JStr p \<Rightarrow>
               Some (drop 1 (dropWhile (\<lambda>c. c \<noteq> CHR ''$'') (drop 6 hash))
                       = toHexString (encode p))
           | _ \<Rightarrow> Some False)"

definition demo_env :: env where
  "demo_env =
     \<lparr>env_EMAIL_SALT = None, digest_SHA256 = demo_digest,
      Bun_password_hash = demo_hash, Bun_password_verify = demo_verify,
      String_toLowerCase = (\<lambda>s. s), String_toUpperCase = (\<lambda>s. s)\<rparr>"

definition demo_nondet :: nondet where
  "demo_nondet =
     \<lparr>Math_random_36 = ''0.4fzyo82mvyr'', Date_now = 35, password_salt = ''s1'',
      CURRENT_TIMESTAMP = ''2025-01-01 00:00:00''\<rparr>"

definition empty_state :: state where
  "empty_state = \<lparr>users = [], sqlite_sequence = 0, activeSessions = {}, trace = []\<rparr>"

definition credentials :: "string \<Rightarrow> string \<Rightarrow> js_value" where
  "credentials email password = obj [(''email'', str email), (''password'', str password)]"

definition post :: "string \<Rightarrow> string option \<Rightarrow> js_value \<Rightarrow> request" where
  "post path auth v =
     \<lparr>req_method = ''POST'', pathname = path, authorization = auth, json = Some v\<rparr>"

text \<open>The state after \<open>a@b.com\<close> has registered with the password \<open>pw1\<close>.\<close>

definition registered_state :: state where
  "registered_state =
     snd (fetch demo_env demo_nondet (post ''/register'' None (credentials ''a@b.com'' ''pw1''))
            empty_state)"


definition reset_request :: "string \<Rightarrow> string \<Rightarrow> string \<Rightarrow> js_value" where
  "reset_request email currentPassword newPassword =
     obj [(''email'', str email), (''currentPassword'', str currentPassword),
           (''newPassword'', str newPassword)]"

definition get_users :: "string option \<Rightarrow> request" where
  "get_users auth = \<lparr>req_method = ''GET'', pathname = ''/users'', authorization = auth, json = None\<rparr>"



section \<open>Strings and objects of the program\<close>

lemma utf16_unit_inj:
  assumes "(of_nat (of_char c) :: 16 word) = of_nat (of_char d)"
  shows "c = d"
proof -
  have "unat (of_nat (of_char x) :: 16 word) = of_char x" for x :: char
  proof -
    have "(of_char x :: nat) < 256" by simp
    moreover have "(2 :: nat) ^ LENGTH(16) = 65536" by simp
    ultimately have "(of_char x :: nat) < 2 ^ LENGTH(16)" by arith
    then show ?thesis by (simp only: unat_of_nat mod_less)
  qed
  with assms have "(of_char c :: nat) = of_char d" by metis
  then show ?thesis by simp
qed

lemma utf16_eq_iff [simp]: "utf16 s = utf16 t \<longleftrightarrow> s = t"
proof
  assume "utf16 s = utf16 t"
  then show "s = t"
  proof (induction s arbitrary: t)
    case Nil
    then show ?case by (simp add: utf16_def)
  next
    case (Cons c s)
    then obtain d t' where t: "t = d # t'" by (cases t) (auto simp: utf16_def)
    with Cons.prems have "(of_nat (of_char c) :: 16 word) = of_nat (of_char d)"
      and "utf16 s = utf16 t'" by (simp_all add: utf16_def)
    with Cons.IH t show ?case by (simp add: utf16_unit_inj)
  qed
qed simp

lemma utf16_empty_iff [simp]: "utf16 s = [] \<longleftrightarrow> s = []"
  by (simp add: utf16_def)

lemma map_of_utf16 [simp]:
  "map_of (map (\<lambda>(k, v). (utf16 k, v)) kvs) (utf16 k) = map_of kvs k"
  by (induction kvs) auto

lemma get_prop_obj [simp]:
  "get_prop (obj kvs) k = (case map_of kvs k of None \<Rightarrow> JUndefined | Some v \<Rightarrow> v)"
  by (simp add: obj_def)

lemma truthy_str [simp]: "truthy (str s) = (s \<noteq> [])"
  by (simp add: str_def)

lemma str_eq_iff [simp]: "str s = str t \<longleftrightarrow> s = t"
  by (simp add: str_def)

lemma obj_eq_iff [simp]: "obj xs = obj ys \<longleftrightarrow> xs = ys"
proof -
  have "inj (\<lambda>(k :: string, v :: js_value). (utf16 k, v))"
    by (auto simp: inj_def)
  then show ?thesis by (simp add: obj_def inj_map_eq_map)
qed

section \<open>Identifier hashing\<close>

lemma uint16_bounds: "0 \<le> uint (c :: 16 word) \<and> uint c < 65536"
  using uint_lt2p [of c] by simp

lemma uint16_of_int: "0 \<le> k \<Longrightarrow> k < 65536 \<Longrightarrow> uint (word_of_int k :: 16 word) = k"
  by (simp add: uint_word_of_int)

lemma word16_eqI: "uint (c :: 16 word) = uint d \<Longrightarrow> c = d"
  by (simp add: word_uint_eq_iff)

lemma uint_toLowerUnit:
  "uint (toLowerUnit c) =
     (let n = uint c
      in if (0x41 \<le> n \<and> n \<le> 0x5A) \<or> (0xC0 \<le> n \<and> n \<le> 0xDE \<and> n \<noteq> 0xD7) then n + 0x20
         else if n = 0x178 then 0xFF else if n = 0x39C then 0x3BC else n)"
proof (cases "(0x41 \<le> uint c \<and> uint c \<le> 0x5A) \<or> (0xC0 \<le> uint c \<and> uint c \<le> 0xDE \<and> uint c \<noteq> 0xD7)")
  case True
  then have "toLowerUnit c = word_of_int (uint c + 0x20)"
    unfolding toLowerUnit_def Let_def by (rule if_P)
  moreover from True have "0 \<le> uint c + 0x20" "uint c + 0x20 < 65536" by auto
  then have "uint (word_of_int (uint c + 0x20) :: 16 word) = uint c + 0x20"
    by (rule uint16_of_int)
  ultimately show ?thesis using True unfolding Let_def by (simp only: if_P)
next
  case False
  then show ?thesis by (auto simp: toLowerUnit_def Let_def)
qed

lemma toLowerUnit_cases:
  "toLowerUnit c = c \<or>
   (((0x41 \<le> uint c \<and> uint c \<le> 0x5A) \<or> (0xC0 \<le> uint c \<and> uint c \<le> 0xDE)) \<and>
    uint (toLowerUnit c) = uint c + 0x20) \<or>
   (uint c = 0x178 \<and> uint (toLowerUnit c) = 0xFF) \<or>
   (uint c = 0x39C \<and> uint (toLowerUnit c) = 0x3BC)"
proof (cases "(0x41 \<le> uint c \<and> uint c \<le> 0x5A) \<or> (0xC0 \<le> uint c \<and> uint c \<le> 0xDE \<and> uint c \<noteq> 0xD7)")
  case True
  then have "uint (toLowerUnit c) = uint c + 0x20"
    unfolding uint_toLowerUnit Let_def by (rule if_P)
  with True show ?thesis by blast
next
  case False
  then have u: "uint (toLowerUnit c) =
      (if uint c = 0x178 then 0xFF else if uint c = 0x39C then 0x3BC else uint c)"
    unfolding uint_toLowerUnit Let_def by (rule if_not_P)
  show ?thesis
  proof (cases "uint c = 0x178 \<or> uint c = 0x39C")
    case True
    with u show ?thesis by auto
  next
    case False
    with u have "uint (toLowerUnit c) = uint c" by simp
    then have "toLowerUnit c = c" by (rule word16_eqI)
    then show ?thesis by simp
  qed
qed

lemma isWhiteSpace_bounds:
  "isWhiteSpace c \<Longrightarrow> uint c \<le> 0x20 \<or> uint c = 0xA0 \<or> 0x1680 \<le> uint c"
  by (auto simp: isWhiteSpace_def Let_def)

lemma isWhiteSpace_toLowerUnit: "isWhiteSpace (toLowerUnit c) = isWhiteSpace c"
proof (cases "toLowerUnit c = c")
  case True
  then show ?thesis by simp
next
  case False
  with toLowerUnit_cases [of c]
  have r: "0x41 \<le> uint c \<and> uint c \<le> 0x39C \<and> uint c \<noteq> 0xA0 \<and>
         0x41 \<le> uint (toLowerUnit c) \<and> uint (toLowerUnit c) \<le> 0x3BC \<and>
         uint (toLowerUnit c) \<noteq> 0xA0"
    by (elim disjE conjE) simp_all
  from r isWhiteSpace_bounds [of c] have "\<not> isWhiteSpace c" by auto
  moreover from r isWhiteSpace_bounds [of "toLowerUnit c"]
  have "\<not> isWhiteSpace (toLowerUnit c)" by auto
  ultimately show ?thesis by simp
qed

lemma caseTabled_toLowerUnit:
  assumes "caseTabled c"
  shows "caseTabled (toLowerUnit c)"
proof (cases "toLowerUnit c = c")
  case True
  with assms show ?thesis by simp
next
  case False
  with toLowerUnit_cases [of c]
  have "uint (toLowerUnit c) < 0x100 \<or> uint (toLowerUnit c) = 0x3BC"
    by (elim disjE conjE) simp_all
  then show ?thesis by (auto simp: caseTabled_def)
qed

lemma casePair_uint:
  assumes "casePair c d" and "c \<noteq> d"
  shows "uint (toLowerUnit c) = uint (toLowerUnit d) \<and> uint c < 0x100 \<and> uint d < 0x100"
  using assms unfolding casePair_def isCapital_def uint_toLowerUnit Let_def
  by (elim disjE conjE) simp_all

lemma casePair_toLowerUnit:
  assumes "casePair c d"
  shows "toLowerUnit c = toLowerUnit d"
proof (cases "c = d")
  case True
  then show ?thesis by simp
next
  case False
  with assms casePair_uint show ?thesis by (intro word16_eqI) blast
qed

lemma casePair_caseTabled:
  assumes "casePair c d" and "caseTabled c"
  shows "caseTabled d"
proof (cases "c = d")
  case True
  with assms show ?thesis by simp
next
  case False
  with assms casePair_uint have "uint d < 0x100" by blast
  then show ?thesis by (simp add: caseTabled_def)
qed

lemma isWhiteSpace_caseTabled: "isWhiteSpace c \<Longrightarrow> caseTabled c"
  by (simp add: caseTabled_def)

lemma toLowerUnit_fixed:
  assumes "\<not> ((0x41 \<le> uint c \<and> uint c \<le> 0x5A) \<or> (0xC0 \<le> uint c \<and> uint c \<le> 0xDE \<and> uint c \<noteq> 0xD7))"
    and "uint c \<noteq> 0x178" and "uint c \<noteq> 0x39C"
  shows "toLowerUnit c = c"
  using assms by (simp add: toLowerUnit_def Let_def)

lemma toLowerUnit_toUpperUnit:
  assumes "uint c \<noteq> 0xDF" and "uint c \<noteq> 0xB5"
  shows "map toLowerUnit (toUpperUnit c) = [toLowerUnit c]"
proof (cases "(0x61 \<le> uint c \<and> uint c \<le> 0x7A) \<or> (0xE0 \<le> uint c \<and> uint c \<le> 0xFE \<and> uint c \<noteq> 0xF7)")
  case True
  let ?u = "word_of_int (uint c - 0x20) :: 16 word"
  from True have up: "toUpperUnit c = [?u]"
    unfolding toUpperUnit_def Let_def by (rule if_P)
  from True have "0 \<le> uint c - 0x20" "uint c - 0x20 < 65536" by auto
  then have uu: "uint ?u = uint c - 0x20" by (rule uint16_of_int)
  with True have "(0x41 \<le> uint ?u \<and> uint ?u \<le> 0x5A) \<or>
      (0xC0 \<le> uint ?u \<and> uint ?u \<le> 0xDE \<and> uint ?u \<noteq> 0xD7)" by auto
  then have "uint (toLowerUnit ?u) = uint ?u + 0x20"
    unfolding uint_toLowerUnit Let_def by (rule if_P)
  with uu have "uint (toLowerUnit ?u) = uint c" by simp
  then have "toLowerUnit ?u = c" by (rule word16_eqI)
  moreover from True have "toLowerUnit c = c" by (intro toLowerUnit_fixed) auto
  ultimately show ?thesis by (simp add: up)
next
  case False
  note notSmall = this
  show ?thesis
  proof (cases "uint c = 0xFF \<or> uint c = 0x3BC")
    case True
    then have fixed: "toLowerUnit c = c" by (intro toLowerUnit_fixed) auto
    from True notSmall assms
    have "toUpperUnit c = [0x178] \<and> uint c = 0xFF \<or> toUpperUnit c = [0x39C] \<and> uint c = 0x3BC"
      by (auto simp: toUpperUnit_def Let_def)
    then show ?thesis
    proof
      assume a: "toUpperUnit c = [0x178] \<and> uint c = 0xFF"
      have "uint (toLowerUnit 0x178) = uint c"
        using a by (simp add: uint_toLowerUnit)
      then have "toLowerUnit 0x178 = c" by (rule word16_eqI)
      with a fixed show ?thesis by simp
    next
      assume a: "toUpperUnit c = [0x39C] \<and> uint c = 0x3BC"
      have "uint (toLowerUnit 0x39C) = uint c"
        using a by (simp add: uint_toLowerUnit)
      then have "toLowerUnit 0x39C = c" by (rule word16_eqI)
      with a fixed show ?thesis by simp
    qed
  next
    case False
    with notSmall assms have "toUpperUnit c = [c]"
      by (simp add: toUpperUnit_def Let_def)
    then show ?thesis by simp
  qed
qed

lemma caseTabled_toUpperUnit:
  assumes "caseTabled c"
  shows "list_all caseTabled (toUpperUnit c)"
proof (cases "(0x61 \<le> uint c \<and> uint c \<le> 0x7A) \<or> (0xE0 \<le> uint c \<and> uint c \<le> 0xFE \<and> uint c \<noteq> 0xF7)")
  case True
  let ?u = "word_of_int (uint c - 0x20) :: 16 word"
  from True have up: "toUpperUnit c = [?u]"
    unfolding toUpperUnit_def Let_def by (rule if_P)
  from True have "0 \<le> uint c - 0x20" "uint c - 0x20 < 65536" by auto
  then have "uint ?u = uint c - 0x20" by (rule uint16_of_int)
  with True have "uint ?u < 0x100" by auto
  then show ?thesis by (simp add: up caseTabled_def)
next
  case False
  then have "toUpperUnit c =
      (if uint c = 0xDF then [0x53, 0x53] else if uint c = 0xFF then [0x178]
       else if uint c = 0xB5 \<or> uint c = 0x3BC then [0x39C] else [c])"
    unfolding toUpperUnit_def Let_def by (rule if_not_P)
  then have "toUpperUnit c = [0x53, 0x53] \<or> toUpperUnit c = [0x178] \<or>
             toUpperUnit c = [0x39C] \<or> toUpperUnit c = [c]"
    by (simp split: if_splits)
  with assms show ?thesis by (auto simp: caseTabled_def)
qed

lemma isWhiteSpace_fixed:
  assumes "isWhiteSpace c"
  shows "toLowerUnit c = c"
proof (rule ccontr)
  assume "toLowerUnit c \<noteq> c"
  with toLowerUnit_cases [of c]
  have "0x41 \<le> uint c \<and> uint c \<le> 0x39C \<and> uint c \<noteq> 0xA0"
    by (elim disjE conjE) simp_all
  with isWhiteSpace_bounds [OF assms] show False by auto
qed

lemma toLowerCase_tabled: "list_all caseTabled s \<Longrightarrow> toLowerCase E s = map toLowerUnit s"
  by (simp add: toLowerCase_def)

lemma dropWhile_all: "list_all P xs \<Longrightarrow> dropWhile P xs = []"
  by (simp add: list_all_iff)

lemma trim_padded:
  assumes "list_all isWhiteSpace w1" "list_all isWhiteSpace w2"
  shows "trim (w1 @ s @ w2) = trim s"
proof -
  have a: "dropWhile isWhiteSpace (w1 @ s @ w2) = dropWhile isWhiteSpace (s @ w2)"
    using assms(1) by (intro dropWhile_append2) (simp add: list_all_iff)
  show ?thesis
  proof (cases "list_all isWhiteSpace s")
    case True
    with assms(2) have "list_all isWhiteSpace (s @ w2)" by simp
    then have e1: "dropWhile isWhiteSpace (s @ w2) = []" by (rule dropWhile_all)
    have e2: "dropWhile isWhiteSpace s = []" using True by (rule dropWhile_all)
    show ?thesis by (simp only: trim_def a e1 e2)
  next
    case False
    then have e1: "dropWhile isWhiteSpace (s @ w2) = dropWhile isWhiteSpace s @ w2"
      by (auto simp: list_all_iff)
    have e2: "dropWhile isWhiteSpace (rev w2 @ ys) = dropWhile isWhiteSpace ys" for ys
      using assms(2) by (intro dropWhile_append2) (simp add: list_all_iff)
    show ?thesis by (simp only: trim_def a e1 rev_append e2)
  qed
qed

lemma map_toLowerUnit_space: "list_all isWhiteSpace w \<Longrightarrow> map toLowerUnit w = w"
  by (induction w) (simp_all add: isWhiteSpace_fixed)

lemma casePair_strings:
  assumes "list_all2 casePair s t"
  shows "map toLowerUnit s = map toLowerUnit t"
    and "list_all caseTabled s \<Longrightarrow> list_all caseTabled t"
  using assms
  by (induction rule: list_all2_induct) (auto simp: casePair_toLowerUnit casePair_caseTabled)

lemma not_in_set_uint:
  assumes "(k :: 16 word) \<notin> set s" and "c \<in> set s"
  shows "uint c \<noteq> uint k"
  using assms word16_eqI by blast

lemma toUpperCase_tabled:
  assumes "list_all caseTabled s"
  shows "list_all caseTabled (concat (map toUpperUnit s))"
  using assms by (induction s) (simp_all add: caseTabled_toUpperUnit)

lemma toLowerCase_toUpperCase:
  assumes "list_all caseTabled s" and "0xDF \<notin> set s" and "0xB5 \<notin> set s"
  shows "toLowerCase E (toUpperCase E s) = toLowerCase E s"
proof -
  have "map toLowerUnit (concat (map toUpperUnit s)) = map toLowerUnit s"
    using assms(2,3)
  proof (induction s)
    case Nil
    show ?case by simp
  next
    case (Cons c s)
    from Cons.prems have "c \<noteq> 0xDF" "c \<noteq> 0xB5" by auto
    then have "uint c \<noteq> uint (0xDF :: 16 word)" "uint c \<noteq> uint (0xB5 :: 16 word)"
      using word16_eqI by blast+
    then have "uint c \<noteq> 0xDF" "uint c \<noteq> 0xB5" by simp_all
    then have "map toLowerUnit (toUpperUnit c) = [toLowerUnit c]"
      by (rule toLowerUnit_toUpperUnit)
    moreover from Cons have "map toLowerUnit (concat (map toUpperUnit s)) = map toLowerUnit s"
      by simp
    ultimately show ?case by simp
  qed
  with assms(1) toUpperCase_tabled [OF assms(1)] show ?thesis
    by (simp add: toLowerCase_def toUpperCase_def)
qed

lemma toLowerCase_padded:
  assumes "list_all isWhiteSpace w1" and "list_all isWhiteSpace w2"
    and "\<forall>u v y. list_all isWhiteSpace u \<and> list_all isWhiteSpace v \<longrightarrow>
           String_toLowerCase E (u @ y @ v) = u @ String_toLowerCase E y @ v"
  shows "toLowerCase E (w1 @ x @ w2) = w1 @ toLowerCase E x @ w2"
proof (cases "list_all caseTabled x")
  case True
  with assms(1,2) have "list_all caseTabled (w1 @ x @ w2)"
    by (auto simp: list_all_iff isWhiteSpace_caseTabled)
  with True assms(1,2) show ?thesis
    by (simp add: toLowerCase_def map_toLowerUnit_space)
next
  case False
  then have "\<not> list_all caseTabled (w1 @ x @ w2)" by simp
  with False assms show ?thesis by (simp add: toLowerCase_def)
qed

text \<open>
  What the normalisation does achieve. On the code units tabled above, white space around
  the e-mail and the case of letters that form a pair do not change the hash, and neither does
  upper-casing an e-mail that holds neither U+00DF nor U+00B5. For every string, white space
  around it does not change the hash when the lower-casing of the platform keeps white space
  at the two ends in place.
\<close>

lemma createEmailHash_normalization:
  "(list_all caseTabled s \<and> list_all isWhiteSpace w1 \<and> list_all isWhiteSpace w2 \<and>
    list_all2 casePair s t \<longrightarrow>
      createEmailHash E (w1 @ s @ w2) = createEmailHash E t) \<and>
   (list_all caseTabled s \<and> 0xDF \<notin> set s \<and> 0xB5 \<notin> set s \<longrightarrow>
      createEmailHash E (toUpperCase E s) = createEmailHash E s) \<and>
   (list_all isWhiteSpace w1 \<and> list_all isWhiteSpace w2 \<and>
    (\<forall>u v y. list_all isWhiteSpace u \<and> list_all isWhiteSpace v \<longrightarrow>
       String_toLowerCase E (u @ y @ v) = u @ String_toLowerCase E y @ v) \<longrightarrow>
      createEmailHash E (w1 @ x @ w2) = createEmailHash E x)"
proof (intro conjI impI)
  assume a: "list_all caseTabled s \<and> list_all isWhiteSpace w1 \<and> list_all isWhiteSpace w2 \<and>
    list_all2 casePair s t"
  then have tt: "list_all caseTabled t" using casePair_strings(2) by blast
  from a have all: "list_all caseTabled (w1 @ s @ w2)"
    by (auto simp: list_all_iff isWhiteSpace_caseTabled)
  from a have "map toLowerUnit (w1 @ s @ w2) = w1 @ map toLowerUnit t @ w2"
    by (simp add: map_toLowerUnit_space casePair_strings(1))
  with a have "trim (map toLowerUnit (w1 @ s @ w2)) = trim (map toLowerUnit t)"
    by (simp only: trim_padded)
  with all tt show "createEmailHash E (w1 @ s @ w2) = createEmailHash E t"
    by (simp add: createEmailHash_def toLowerCase_tabled)
next
  assume "list_all caseTabled s \<and> 0xDF \<notin> set s \<and> 0xB5 \<notin> set s"
  then have "toLowerCase E (toUpperCase E s) = toLowerCase E s"
    by (intro toLowerCase_toUpperCase) simp_all
  then show "createEmailHash E (toUpperCase E s) = createEmailHash E s"
    by (simp add: createEmailHash_def)
next
  assume a: "list_all isWhiteSpace w1 \<and> list_all isWhiteSpace w2 \<and>
    (\<forall>u v y. list_all isWhiteSpace u \<and> list_all isWhiteSpace v \<longrightarrow>
       String_toLowerCase E (u @ y @ v) = u @ String_toLowerCase E y @ v)"
  then have "toLowerCase E (w1 @ x @ w2) = w1 @ toLowerCase E x @ w2"
    by (intro toLowerCase_padded) simp_all
  with a have "trim (toLowerCase E (w1 @ x @ w2)) = trim (toLowerCase E x)"
    by (simp only: trim_padded)
  then show "createEmailHash E (w1 @ x @ w2) = createEmailHash E x"
    by (simp add: createEmailHash_def)
qed

lemma createEmailHash_spec_example:
  "createEmailHash E (utf16 '' User@Example.com '') = createEmailHash E (utf16 ''user@example.com'')"
proof -
  have 1: "list_all caseTabled (utf16 ''User@Example.com'') \<and>
        list_all isWhiteSpace (utf16 '' '') \<and> list_all isWhiteSpace (utf16 '' '') \<and>
        list_all2 casePair (utf16 ''User@Example.com'') (utf16 ''user@example.com'')"
    by (simp add: utf16_def caseTabled_def isWhiteSpace_def casePair_def isCapital_def)
  have 2: "utf16 '' User@Example.com '' = utf16 '' '' @ utf16 ''User@Example.com'' @ utf16 '' ''"
    by (simp add: utf16_def)
  from createEmailHash_normalization [THEN conjunct1, THEN mp, OF 1, of E] 2
  show ?thesis by simp
qed

text \<open>
  Claim C3. \<open>createEmailHash\<close> reads nothing but the salt of the process and its argument,
  so repeated calls agree, and white space at the two ends is trimmed. Inputs that differ only
  in letter case are not always hashed alike: the upper-casing of the e-mail U+00DF \<open>@b.com\<close>
  is \<open>SS@B.COM\<close>, which lower-cases to \<open>ss@b.com\<close>, and the two e-mails get different
  hashes; so do U+00B5 \<open>@b.com\<close> and its upper-casing, which lower-cases to U+03BC. The
  server's own check of the property, \<open>POST /debug/test-hash\<close>, answers
  \<open>case_insensitive: false\<close> and \<open>Email hashing has issues\<close> for the first e-mail.
\<close>

theorem createEmailHash_case_variants_differ:
  "toUpperCase demo_env (0xDF # utf16 ''@b.com'') = utf16 ''SS@B.COM'' \<and>
   createEmailHash demo_env (utf16 ''SS@B.COM'') \<noteq>
     createEmailHash demo_env (0xDF # utf16 ''@b.com'') \<and>
   toUpperCase demo_env (0xB5 # utf16 ''@b.com'') = 0x39C # utf16 ''@B.COM'' \<and>
   createEmailHash demo_env (0x39C # utf16 ''@B.COM'') \<noteq>
     createEmailHash demo_env (0xB5 # utf16 ''@b.com'') \<and>
   map_option (\<lambda>v. (get_prop v ''case_insensitive'', get_prop v ''message''))
     (body (fst (fetch demo_env demo_nondet
                   (post ''/debug/test-hash'' None
                      (obj [(''email'', JStr (0xDF # utf16 ''@b.com''))]))
                   empty_state))) =
     Some (JBool False, str ''Email hashing has issues'')"
  by code_simp

section \<open>Unfolding the handlers\<close>

lemmas io_defs =
  bind_io_def return_io_def throw_io_def emit_def parseRequestBody_def
  createEmailHash_call_def password_hash_call_def password_verify_call_def
  getUserByEmailHash_def addUser_def getAllUsers_def updatePassword_def
  sessions_add_def sessions_delete_def sessions_has_def authenticated_def
  sessionToken_of_def

lemmas response_defs = error_response_def json_response_def internal_server_error_def

lemma toString36_nonempty: "toString36 n \<noteq> []"
  by (subst toString36.simps) simp

lemma createSessionToken_nonempty: "createSessionToken N \<noteq> []"
  by (simp add: createSessionToken_def toString36_nonempty)

lemma replace_first_prefix: "pat \<noteq> [] \<Longrightarrow> replace_first pat (pat @ t) = t"
  by (cases pat) simp_all

lemma replace_first_first_occurrence:
  assumes "pat \<noteq> []"
    and "\<forall>i<length pre. take (length pat) (drop i (pre @ pat @ rest)) \<noteq> pat"
  shows "replace_first pat (pre @ pat @ rest) = pre @ rest"
  using assms(2)
proof (induction pre)
  case Nil
  then show ?case using assms(1) by (simp add: replace_first_prefix)
next
  case (Cons c pre)
  from Cons.prems have "take (length pat) (drop 0 ((c # pre) @ pat @ rest)) \<noteq> pat"
    by blast
  then have h: "take (length pat) (c # pre @ pat @ rest) \<noteq> pat" by simp
  have "\<forall>i<length pre. take (length pat) (drop i (pre @ pat @ rest)) \<noteq> pat"
  proof (intro allI impI)
    fix i assume "i < length pre"
    then have "Suc i < length (c # pre)" by simp
    with Cons.prems have "take (length pat) (drop (Suc i) ((c # pre) @ pat @ rest)) \<noteq> pat"
      by blast
    then show "take (length pat) (drop i (pre @ pat @ rest)) \<noteq> pat" by simp
  qed
  with Cons.IH have "replace_first pat (pre @ pat @ rest) = pre @ rest" by blast
  with h show ?case by simp
qed

lemma replace_first_absent: "c \<notin> set s \<Longrightarrow> replace_first (c # pat) s = s"
  by (induction s) auto

lemma users_authenticated:
  assumes "req_method rq = ''GET''" and "pathname rq = ''/users''"
    and "authorization rq = Some a" and "replace_first ''Bearer '' a \<noteq> []"
    and "replace_first ''Bearer '' a \<in> activeSessions s"
  shows "fetch E N rq s =
           (json_response 200
              (obj [(''success'', JBool True),
                (''message'', str ''All users retrieved (showing hashed data for security proof)''),
                (''users'', JArr (map user_json (users s))),
                (''total_users'', JNum (int (length (users s)))),
                (''security_note'',
                   str ''Emails: SHA-256 + deterministic salt, Passwords: Argon2id + random salt'')]),
            s\<lparr>trace := trace s @ [GetAllUsers]\<rparr>)"
  using assms by (simp add: fetch_def route_def handle_users_def io_defs)

lemma logout_valid:
  assumes "req_method rq = ''POST''" and "pathname rq = ''/logout''"
    and "authorization rq = Some a" and "replace_first ''Bearer '' a = t" and "t \<noteq> []"
    and "t \<in> activeSessions s"
  shows "fetch E N rq s =
           (json_response 200
              (obj [(''success'', JBool True), (''message'', str ''Logged out successfully'')]),
            s\<lparr>activeSessions := activeSessions s - {t}, trace := trace s @ [SessionDelete t]\<rparr>)"
  using assms by (simp add: fetch_def route_def handle_logout_def io_defs)

lemma logout_invalid:
  assumes "req_method rq = ''POST''" and "pathname rq = ''/logout''"
    and "case authorization rq of None \<Rightarrow> True
         | Some a \<Rightarrow> replace_first ''Bearer '' a = [] \<or>
                    replace_first ''Bearer '' a \<notin> activeSessions s"
  shows "fetch E N rq s = (error_response 400 ''No active session found'', s)"
  using assms
  by (auto simp: fetch_def route_def handle_logout_def io_defs split: option.splits)

lemma users_unauthenticated:
  assumes "req_method rq = ''GET''" and "pathname rq = ''/users''"
    and "case authorization rq of None \<Rightarrow> True
         | Some a \<Rightarrow> replace_first ''Bearer '' a = [] \<or>
                    replace_first ''Bearer '' a \<notin> activeSessions s"
  shows "fetch E N rq s = (error_response 401 ''Authentication required'', s)"
  using assms
  by (auto simp: fetch_def route_def handle_users_def io_defs split: option.splits)

section \<open>Registration\<close>

lemma register_existing:
  assumes "req_method rq = ''POST''" and "pathname rq = ''/register''"
    and "json rq = Some b" and "get_prop b ''email'' = JStr e" and "e \<noteq> []"
    and "truthy (get_prop b ''password'')"
    and "Bun_password_hash E (get_prop b ''password'') (password_salt N) = Some h"
    and "\<exists>u \<in> set (users s). email_hash u = createEmailHash E e"
  shows "fetch E N rq s =
           (error_response 400 ''User already exists'',
            s\<lparr>trace := trace s @ [ParseRequestBody, CreateEmailHash e,
                                   PasswordHash (get_prop b ''password''),
                                   GetUserByEmailHash (createEmailHash E e)]\<rparr>)"
proof -
  from assms(8) have "find (\<lambda>u. email_hash u = createEmailHash E e) (users s) \<noteq> None"
    by (auto simp: find_None_iff)
  then show ?thesis using assms(1-7)
    by (simp add: fetch_def route_def handle_register_def io_defs)
qed

lemma register_fresh:
  assumes "req_method rq = ''POST''" and "pathname rq = ''/register''"
    and "json rq = Some b" and "get_prop b ''email'' = JStr e" and "e \<noteq> []"
    and "truthy (get_prop b ''password'')"
    and "Bun_password_hash E (get_prop b ''password'') (password_salt N) = Some h"
    and "\<not> (\<exists>u \<in> set (users s). email_hash u = createEmailHash E e)"
  shows "fetch E N rq s =
           (json_response 200
              (obj [(''success'', JBool True),
                     (''message'', str ''User registered successfully''),
                     (''sessionId'', str (createSessionToken N))]),
            s\<lparr>users := users s @
                  [\<lparr>row_id = Suc (fold max (map row_id (users s)) (sqlite_sequence s)),
                    email_hash = createEmailHash E e, password_hash = h,
                    created_at = CURRENT_TIMESTAMP N\<rparr>],
              sqlite_sequence := Suc (fold max (map row_id (users s)) (sqlite_sequence s)),
              activeSessions := insert (createSessionToken N) (activeSessions s),
              trace := trace s @ [ParseRequestBody, CreateEmailHash e,
                                   PasswordHash (get_prop b ''password''),
                                   GetUserByEmailHash (createEmailHash E e),
                                   AddUser (createEmailHash E e) h,
                                   SessionAdd (createSessionToken N)]\<rparr>)"
proof -
  from assms(8) have "find (\<lambda>u. email_hash u = createEmailHash E e) (users s) = None"
    by (simp add: find_None_iff)
  then show ?thesis using assms
    by (simp add: fetch_def route_def handle_register_def io_defs Let_def)
qed

text \<open>
  Claim C1, as the code has it. A registration whose identifier hash already has a row is
  answered with 400 \<open>User already exists\<close>; it inserts no row and opens no session, and
  registering the same identifier twice succeeds the first time and fails so the second time.
  The password is hashed before the row is looked up, so the calls made on this path are: parse
  the body, hash the e-mail, hash the password, look the row up. This holds when
  \<open>Bun.password.hash\<close> returns for the submitted password.
\<close>

theorem register_existing_identifier:
  assumes "req_method rq = ''POST''" and "pathname rq = ''/register''"
    and "json rq = Some b" and "get_prop b ''email'' = JStr e" and "e \<noteq> []"
    and "truthy (get_prop b ''password'')"
    and "Bun_password_hash E (get_prop b ''password'') (password_salt N) = Some h"
    and "Bun_password_hash E (get_prop b ''password'') (password_salt N2) = Some h2"
  shows
    "((\<exists>u \<in> set (users s). email_hash u = createEmailHash E e) \<longrightarrow>
        fetch E N rq s =
          (error_response 400 ''User already exists'',
           s\<lparr>trace := trace s @ [ParseRequestBody, CreateEmailHash e,
                                  PasswordHash (get_prop b ''password''),
                                  GetUserByEmailHash (createEmailHash E e)]\<rparr>)) \<and>
     (\<not> (\<exists>u \<in> set (users s). email_hash u = createEmailHash E e) \<longrightarrow>
        status (fst (fetch E N rq s)) = 200 \<and>
        fst (fetch E N2 rq (snd (fetch E N rq s))) = error_response 400 ''User already exists'' \<and>
        users (snd (fetch E N2 rq (snd (fetch E N rq s)))) = users (snd (fetch E N rq s)) \<and>
        activeSessions (snd (fetch E N2 rq (snd (fetch E N rq s)))) =
          activeSessions (snd (fetch E N rq s)))"
proof (intro conjI impI)
  assume "\<exists>u \<in> set (users s). email_hash u = createEmailHash E e"
  then show "fetch E N rq s =
          (error_response 400 ''User already exists'',
           s\<lparr>trace := trace s @ [ParseRequestBody, CreateEmailHash e,
                                  PasswordHash (get_prop b ''password''),
                                  GetUserByEmailHash (createEmailHash E e)]\<rparr>)"
    by (rule register_existing [OF assms(1-7)])
next
  assume fresh: "\<not> (\<exists>u \<in> set (users s). email_hash u = createEmailHash E e)"
  note first = register_fresh [OF assms(1-7) fresh]
  let ?s1 = "snd (fetch E N rq s)"
  have ex: "\<exists>u \<in> set (users ?s1). email_hash u = createEmailHash E e"
    by (simp add: first)
  note second = register_existing [OF assms(1-6) assms(8) ex]
  show "status (fst (fetch E N rq s)) = 200" by (simp add: first json_response_def)
  show "fst (fetch E N2 rq ?s1) = error_response 400 ''User already exists''"
    by (simp add: second)
  show "users (snd (fetch E N2 rq ?s1)) = users ?s1" by (simp add: second)
  show "activeSessions (snd (fetch E N2 rq ?s1)) = activeSessions ?s1" by (simp add: second)
qed

theorem register_existing_identifier_witness:
  "fetch demo_env demo_nondet (post ''/register'' None (credentials ''a@b.com'' ''pw2''))
     registered_state =
     (error_response 400 ''User already exists'',
      registered_state\<lparr>trace := trace registered_state @
         [ParseRequestBody, CreateEmailHash (utf16 ''a@b.com''), PasswordHash (str ''pw2''),
          GetUserByEmailHash (createEmailHash demo_env (utf16 ''a@b.com''))]\<rparr>) \<and>
   status (fst (fetch demo_env demo_nondet
                  (post ''/register'' None (credentials ''a@b.com'' ''pw2'')) empty_state)) = 200 \<and>
   fst (fetch demo_env demo_nondet (post ''/register'' None (credentials ''a@b.com'' ''pw2''))
          (snd (fetch demo_env demo_nondet
                  (post ''/register'' None (credentials ''a@b.com'' ''pw2'')) empty_state))) =
     error_response 400 ''User already exists''"
proof -
  let ?rq = "post ''/register'' None (credentials ''a@b.com'' ''pw2'')"
  have a: "req_method ?rq = ''POST''" "pathname ?rq = ''/register''"
    "json ?rq = Some (credentials ''a@b.com'' ''pw2'')"
    "get_prop (credentials ''a@b.com'' ''pw2'') ''email'' = JStr (utf16 ''a@b.com'')"
    "utf16 ''a@b.com'' \<noteq> []"
    "truthy (get_prop (credentials ''a@b.com'' ''pw2'') ''password'')"
    "Bun_password_hash demo_env (get_prop (credentials ''a@b.com'' ''pw2'') ''password'')
       (password_salt demo_nondet) = Some ''$demo$s1$707732''"
    by (simp_all add: post_def credentials_def str_def) code_simp
  have pw: "get_prop (credentials ''a@b.com'' ''pw2'') ''password'' = str ''pw2''"
    by (simp add: credentials_def)
  have known: "\<exists>u \<in> set (users registered_state).
                 email_hash u = createEmailHash demo_env (utf16 ''a@b.com'')"
    by code_simp
  have fresh: "\<not> (\<exists>u \<in> set (users empty_state).
                 email_hash u = createEmailHash demo_env (utf16 ''a@b.com''))"
    by (simp add: empty_state_def)
  from register_existing_identifier [OF a a(7), of registered_state] known
       register_existing_identifier [OF a a(7), of empty_state] fresh pw
  show ?thesis by simp
qed

text \<open>
  Against claim C1 as stated: on the path that ends in \<open>User already exists\<close> the password
  of the request has been hashed, and before the lookup.
\<close>

theorem register_hashes_before_lookup_counterexample:
  "fst (fetch demo_env demo_nondet (post ''/register'' None (credentials ''a@b.com'' ''pw2''))
          registered_state) = error_response 400 ''User already exists'' \<and>
   drop (length (trace registered_state))
     (trace (snd (fetch demo_env demo_nondet
                    (post ''/register'' None (credentials ''a@b.com'' ''pw2''))
                    registered_state))) =
     [ParseRequestBody, CreateEmailHash (utf16 ''a@b.com''), PasswordHash (str ''pw2''),
      GetUserByEmailHash (createEmailHash demo_env (utf16 ''a@b.com''))]"
  by code_simp

section \<open>Login\<close>

lemma login_unknown:
  assumes "req_method rq = ''POST''" and "pathname rq = ''/login''"
    and "json rq = Some b" and "get_prop b ''email'' = JStr e" and "e \<noteq> []"
    and "truthy (get_prop b ''password'')"
    and "find (\<lambda>u. email_hash u = createEmailHash E e) (users s) = None"
  shows "fetch E N rq s =
           (error_response 401 ''Invalid credentials'',
            s\<lparr>trace := trace s @ [ParseRequestBody, CreateEmailHash e,
                                   GetUserByEmailHash (createEmailHash E e)]\<rparr>)"
  using assms by (simp add: fetch_def route_def handle_login_def io_defs)

lemma login_known:
  assumes "req_method rq = ''POST''" and "pathname rq = ''/login''"
    and "json rq = Some b" and "get_prop b ''email'' = JStr e" and "e \<noteq> []"
    and "truthy (get_prop b ''password'')"
    and "find (\<lambda>u. email_hash u = createEmailHash E e) (users s) = Some u"
  shows "fetch E N rq s =
           (let s1 = s\<lparr>trace := trace s @ [ParseRequestBody, CreateEmailHash e,
                           GetUserByEmailHash (createEmailHash E e),
                           PasswordVerify (get_prop b ''password'') (password_hash u)]\<rparr>
            in case Bun_password_verify E (get_prop b ''password'') (password_hash u) of
                 None \<Rightarrow> (internal_server_error, s1)
               | Some False \<Rightarrow> (error_response 401 ''Invalid credentials'', s1)
               | Some True \<Rightarrow>
                   (json_response 200
                      (obj [(''success'', JBool True), (''message'', str ''Login successful''),
                             (''sessionId'', str (createSessionToken N))]),
                    s1\<lparr>activeSessions := insert (createSessionToken N) (activeSessions s),
                       trace := trace s1 @ [SessionAdd (createSessionToken N)]\<rparr>))"
  using assms
  by (simp add: fetch_def route_def handle_login_def io_defs Let_def split: option.splits bool.splits)

lemma issue_on_success:
  assumes "req_method rq = ''POST''" and "pathname rq = ''/register'' \<or> pathname rq = ''/login''"
    and "status (fst (fetch E N rq s)) = 200"
  shows "map_option (\<lambda>v. get_prop v ''sessionId'') (body (fst (fetch E N rq s))) =
           Some (str (createSessionToken N)) \<and>
         activeSessions (snd (fetch E N rq s)) = insert (createSessionToken N) (activeSessions s)"
  using assms
  by (auto simp: fetch_def route_def handle_register_def handle_login_def io_defs Let_def
                 response_defs
           split: option.splits bool.splits if_splits js_value.splits)

text \<open>
  Claim C2. A login with an identifier that has no row and a login with a known identifier
  whose password does not verify are answered with the same response, 401
  \<open>Invalid credentials\<close> with the same headers, whatever the two requests, states and
  salt are; neither opens a session.
\<close>

theorem login_failures_indistinguishable:
  assumes "req_method rq1 = ''POST''" and "pathname rq1 = ''/login''"
    and "json rq1 = Some b1" and "get_prop b1 ''email'' = JStr e1" and "e1 \<noteq> []"
    and "truthy (get_prop b1 ''password'')"
    and "find (\<lambda>u. email_hash u = createEmailHash E e1) (users s1) = None"
    and "req_method rq2 = ''POST''" and "pathname rq2 = ''/login''"
    and "json rq2 = Some b2" and "get_prop b2 ''email'' = JStr e2" and "e2 \<noteq> []"
    and "truthy (get_prop b2 ''password'')"
    and "find (\<lambda>u. email_hash u = createEmailHash E e2) (users s2) = Some u"
    and "Bun_password_verify E (get_prop b2 ''password'') (password_hash u) = Some False"
  shows "fst (fetch E N1 rq1 s1) = error_response 401 ''Invalid credentials'' \<and>
         fst (fetch E N2 rq2 s2) = error_response 401 ''Invalid credentials'' \<and>
         fst (fetch E N1 rq1 s1) = fst (fetch E N2 rq2 s2) \<and>
         activeSessions (snd (fetch E N1 rq1 s1)) = activeSessions s1 \<and>
         activeSessions (snd (fetch E N2 rq2 s2)) = activeSessions s2"
  using login_unknown [OF assms(1-7), of N1] login_known [OF assms(8-14), of N2] assms(15)
  by (simp add: Let_def)

theorem login_failures_indistinguishable_witness:
  "fst (fetch demo_env demo_nondet (post ''/login'' None (credentials ''x@y.org'' ''pw1''))
          registered_state) =
   fst (fetch demo_env demo_nondet (post ''/login'' None (credentials ''a@b.com'' ''wrong''))
          registered_state) \<and>
   find (\<lambda>u. email_hash u = createEmailHash demo_env (utf16 ''x@y.org'')) (users registered_state) = None \<and>
   find (\<lambda>u. email_hash u = createEmailHash demo_env (utf16 ''a@b.com'')) (users registered_state) \<noteq> None"
proof -
  let ?u = "\<lparr>row_id = 1, email_hash = createEmailHash demo_env (utf16 ''a@b.com''),
             password_hash = ''$demo$s1$707731'', created_at = ''2025-01-01 00:00:00''\<rparr>"
  let ?r1 = "post ''/login'' None (credentials ''x@y.org'' ''pw1'')"
  let ?r2 = "post ''/login'' None (credentials ''a@b.com'' ''wrong'')"
  have a: "req_method ?r1 = ''POST''" "pathname ?r1 = ''/login''"
    "json ?r1 = Some (credentials ''x@y.org'' ''pw1'')"
    "get_prop (credentials ''x@y.org'' ''pw1'') ''email'' = JStr (utf16 ''x@y.org'')"
    "utf16 ''x@y.org'' \<noteq> []"
    "truthy (get_prop (credentials ''x@y.org'' ''pw1'') ''password'')"
    by (simp_all add: post_def credentials_def str_def)
  have b: "req_method ?r2 = ''POST''" "pathname ?r2 = ''/login''"
    "json ?r2 = Some (credentials ''a@b.com'' ''wrong'')"
    "get_prop (credentials ''a@b.com'' ''wrong'') ''email'' = JStr (utf16 ''a@b.com'')"
    "utf16 ''a@b.com'' \<noteq> []"
    "truthy (get_prop (credentials ''a@b.com'' ''wrong'') ''password'')"
    by (simp_all add: post_def credentials_def str_def)
  have unknown: "find (\<lambda>u. email_hash u = createEmailHash demo_env (utf16 ''x@y.org''))
                   (users registered_state) = None"
    by code_simp
  have known: "find (\<lambda>u. email_hash u = createEmailHash demo_env (utf16 ''a@b.com''))
                 (users registered_state) = Some ?u"
    by code_simp
  have wrong: "Bun_password_verify demo_env (get_prop (credentials ''a@b.com'' ''wrong'') ''password'')
                 (password_hash ?u) = Some False"
    by code_simp
  from login_failures_indistinguishable [OF a unknown b known wrong] unknown known
  show ?thesis by simp
qed

section \<open>Password reset\<close>

lemma reset_unauthorized:
  assumes "req_method rq = ''POST''" and "pathname rq = ''/reset-password''"
    and "case authorization rq of None \<Rightarrow> True
         | Some a \<Rightarrow> replace_first ''Bearer '' a = [] \<or>
                    replace_first ''Bearer '' a \<notin> activeSessions s"
  shows "fetch E N rq s = (error_response 401 ''Authentication required'', s)"
  using assms
  by (auto simp: fetch_def route_def handle_reset_password_def io_defs split: option.splits)

lemma reset_authorized:
  assumes "req_method rq = ''POST''" and "pathname rq = ''/reset-password''"
    and "authorization rq = Some a" and "replace_first ''Bearer '' a \<noteq> []"
    and "replace_first ''Bearer '' a \<in> activeSessions s"
    and "json rq = Some b" and "get_prop b ''email'' = JStr e" and "e \<noteq> []"
    and "truthy (get_prop b ''currentPassword'')" and "truthy (get_prop b ''newPassword'')"
    and "find (\<lambda>u. email_hash u = createEmailHash E e) (users s) = Some u"
  shows "fetch E N rq s =
           (let s1 = s\<lparr>trace := trace s @ [ParseRequestBody, CreateEmailHash e,
                           GetUserByEmailHash (createEmailHash E e),
                           PasswordVerify (get_prop b ''currentPassword'') (password_hash u)]\<rparr>
            in case Bun_password_verify E (get_prop b ''currentPassword'') (password_hash u) of
                 None \<Rightarrow> (internal_server_error, s1)
               | Some False \<Rightarrow> (error_response 401 ''Current password is incorrect'', s1)
               | Some True \<Rightarrow>
                  (case Bun_password_hash E (get_prop b ''newPassword'') (password_salt N) of
                     None \<Rightarrow>
                       (internal_server_error,
                        s1\<lparr>trace := trace s1 @ [PasswordHash (get_prop b ''newPassword'')]\<rparr>)
                   | Some h \<Rightarrow>
                       (json_response 200
                          (obj [(''success'', JBool True),
                                 (''message'', str ''Password updated successfully'')]),
                        s1\<lparr>users := map (\<lambda>u. if email_hash u = createEmailHash E e
                                                then u\<lparr>password_hash := h\<rparr> else u) (users s),
                           trace := trace s1 @ [PasswordHash (get_prop b ''newPassword''),
                                                UpdatePassword (createEmailHash E e) h]\<rparr>)))"
  using assms
  by (simp add: fetch_def route_def handle_reset_password_def io_defs Let_def
           split: option.splits bool.splits)

lemma reset_changes_users_only_after_verify:
  assumes "req_method rq = ''POST''" and "pathname rq = ''/reset-password''"
    and "users (snd (fetch E N rq s)) \<noteq> users s"
  shows "verifies_current_password E rq s"
  using assms
  by (auto simp: fetch_def route_def handle_reset_password_def io_defs Let_def
                 verifies_current_password_def
           split: option.splits bool.splits if_splits js_value.splits)

lemma reset_passes_authorization:
  assumes "req_method rq = ''POST''" and "pathname rq = ''/reset-password''"
    and "authorization rq = Some a" and "replace_first ''Bearer '' a \<noteq> []"
    and "replace_first ''Bearer '' a \<in> activeSessions s"
  shows "fst (fetch E N rq s) \<noteq> error_response 401 ''Authentication required'' \<and>
         take 1 (drop (length (trace s)) (trace (snd (fetch E N rq s)))) = [ParseRequestBody]"
  using assms
  by (auto simp: fetch_def route_def handle_reset_password_def io_defs Let_def response_defs
           split: option.splits bool.splits if_splits js_value.splits)

text \<open>
  Claim C5. An authorized reset for a known identifier whose \<open>currentPassword\<close> does not
  verify is answered with 401 \<open>Current password is incorrect\<close> and leaves the table of
  users as it was, so a login with a password that verified against the stored hash before
  still succeeds afterwards; and whenever a reset changes the table, the verification of
  \<open>currentPassword\<close> has returned true.
\<close>

theorem reset_wrong_current_secret:
  assumes "req_method rq = ''POST''" and "pathname rq = ''/reset-password''"
    and "authorization rq = Some a" and "replace_first ''Bearer '' a \<noteq> []"
    and "replace_first ''Bearer '' a \<in> activeSessions s"
    and "json rq = Some b" and "get_prop b ''email'' = JStr e" and "e \<noteq> []"
    and "truthy (get_prop b ''currentPassword'')" and "truthy (get_prop b ''newPassword'')"
    and "find (\<lambda>u. email_hash u = createEmailHash E e) (users s) = Some u"
  shows
    "(Bun_password_verify E (get_prop b ''currentPassword'') (password_hash u) = Some False \<longrightarrow>
        fetch E N rq s =
          (error_response 401 ''Current password is incorrect'',
           s\<lparr>trace := trace s @ [ParseRequestBody, CreateEmailHash e,
                  GetUserByEmailHash (createEmailHash E e),
                  PasswordVerify (get_prop b ''currentPassword'') (password_hash u)]\<rparr>) \<and>
        users (snd (fetch E N rq s)) = users s \<and>
        (req_method rqL = ''POST'' \<and> pathname rqL = ''/login'' \<and> json rqL = Some bL \<and>
         get_prop bL ''email'' = JStr e \<and> truthy (get_prop bL ''password'') \<and>
         Bun_password_verify E (get_prop bL ''password'') (password_hash u) = Some True \<longrightarrow>
           status (fst (fetch E NL rqL (snd (fetch E N rq s)))) = 200)) \<and>
     (req_method rq' = ''POST'' \<and> pathname rq' = ''/reset-password'' \<and>
      users (snd (fetch E N' rq' s')) \<noteq> users s' \<longrightarrow>
        verifies_current_password E rq' s')"
proof (intro conjI impI)
  note r = reset_authorized [OF assms, of N]
  {
    assume wrong: "Bun_password_verify E (get_prop b ''currentPassword'') (password_hash u) = Some False"
    let ?s1 = "s\<lparr>trace := trace s @ [ParseRequestBody, CreateEmailHash e,
                  GetUserByEmailHash (createEmailHash E e),
                  PasswordVerify (get_prop b ''currentPassword'') (password_hash u)]\<rparr>"
    from r wrong
    show f: "fetch E N rq s = (error_response 401 ''Current password is incorrect'', ?s1)"
      by (simp add: Let_def)
    then show "users (snd (fetch E N rq s)) = users s" by simp
    assume L: "req_method rqL = ''POST'' \<and> pathname rqL = ''/login'' \<and> json rqL = Some bL \<and>
         get_prop bL ''email'' = JStr e \<and> truthy (get_prop bL ''password'') \<and>
         Bun_password_verify E (get_prop bL ''password'') (password_hash u) = Some True"
    have fu: "find (\<lambda>u. email_hash u = createEmailHash E e) (users ?s1) = Some u"
      using assms(11) by simp
    from L have "req_method rqL = ''POST''" "pathname rqL = ''/login''" "json rqL = Some bL"
      "get_prop bL ''email'' = JStr e" "truthy (get_prop bL ''password'')" by simp_all
    from login_known [OF this(1-4) assms(8) this(5) fu, of NL] L
    show "status (fst (fetch E NL rqL (snd (fetch E N rq s)))) = 200"
      by (simp add: f Let_def json_response_def)
  }
  assume "req_method rq' = ''POST'' \<and> pathname rq' = ''/reset-password'' \<and>
      users (snd (fetch E N' rq' s')) \<noteq> users s'"
  then show "verifies_current_password E rq' s'"
    by (intro reset_changes_users_only_after_verify [of rq' E N' s']) simp_all
qed

theorem reset_wrong_current_secret_witness:
  "fst (fetch demo_env demo_nondet
          (post ''/reset-password'' (Some ''Bearer 4fzyo82mvyrz'')
             (reset_request ''a@b.com'' ''wrong'' ''pw2'')) registered_state) =
     error_response 401 ''Current password is incorrect'' \<and>
   users (snd (fetch demo_env demo_nondet
          (post ''/reset-password'' (Some ''Bearer 4fzyo82mvyrz'')
             (reset_request ''a@b.com'' ''wrong'' ''pw2'')) registered_state)) =
     users registered_state \<and>
   status (fst (fetch demo_env demo_nondet
                  (post ''/login'' None (credentials ''a@b.com'' ''pw1''))
                  (snd (fetch demo_env demo_nondet
                          (post ''/reset-password'' (Some ''Bearer 4fzyo82mvyrz'')
                             (reset_request ''a@b.com'' ''wrong'' ''pw2'')) registered_state)))) = 200 \<and>
   users (snd (fetch demo_env demo_nondet
          (post ''/reset-password'' (Some ''Bearer 4fzyo82mvyrz'')
             (reset_request ''a@b.com'' ''pw1'' ''pw2'')) registered_state)) \<noteq>
     users registered_state \<and>
   verifies_current_password demo_env
     (post ''/reset-password'' (Some ''Bearer 4fzyo82mvyrz'')
        (reset_request ''a@b.com'' ''pw1'' ''pw2'')) registered_state"
proof -
  let ?ok = "post ''/reset-password'' (Some ''Bearer 4fzyo82mvyrz'')
               (reset_request ''a@b.com'' ''pw1'' ''pw2'')"
  have changed: "users (snd (fetch demo_env demo_nondet ?ok registered_state)) \<noteq>
                   users registered_state"
    by code_simp
  have g: "req_method ?ok = ''POST'' \<and> pathname ?ok = ''/reset-password'' \<and>
           users (snd (fetch demo_env demo_nondet ?ok registered_state)) \<noteq> users registered_state"
    using changed by (simp add: post_def)
  let ?u = "\<lparr>row_id = 1, email_hash = createEmailHash demo_env (utf16 ''a@b.com''),
             password_hash = ''$demo$s1$707731'', created_at = ''2025-01-01 00:00:00''\<rparr>"
  let ?b = "reset_request ''a@b.com'' ''wrong'' ''pw2''"
  let ?rq = "post ''/reset-password'' (Some ''Bearer 4fzyo82mvyrz'') ?b"
  let ?bL = "credentials ''a@b.com'' ''pw1''"
  let ?rqL = "post ''/login'' None ?bL"
  have a: "req_method ?rq = ''POST''" "pathname ?rq = ''/reset-password''"
    "authorization ?rq = Some ''Bearer 4fzyo82mvyrz''"
    "replace_first ''Bearer '' ''Bearer 4fzyo82mvyrz'' \<noteq> []"
    by (simp_all add: post_def)
  have m: "replace_first ''Bearer '' ''Bearer 4fzyo82mvyrz'' \<in> activeSessions registered_state"
    by code_simp
  have b: "json ?rq = Some ?b" "get_prop ?b ''email'' = JStr (utf16 ''a@b.com'')" "utf16 ''a@b.com'' \<noteq> []"
    "truthy (get_prop ?b ''currentPassword'')" "truthy (get_prop ?b ''newPassword'')"
    by (simp_all add: post_def reset_request_def str_def)
  have known: "find (\<lambda>u. email_hash u = createEmailHash demo_env (utf16 ''a@b.com''))
                 (users registered_state) = Some ?u"
    by code_simp
  have wrong: "Bun_password_verify demo_env (get_prop ?b ''currentPassword'') (password_hash ?u)
                 = Some False"
    by code_simp
  have L: "req_method ?rqL = ''POST'' \<and> pathname ?rqL = ''/login'' \<and> json ?rqL = Some ?bL \<and>
         get_prop ?bL ''email'' = JStr (utf16 ''a@b.com'') \<and> truthy (get_prop ?bL ''password'') \<and>
         Bun_password_verify demo_env (get_prop ?bL ''password'') (password_hash ?u) = Some True"
    by code_simp
  note T = reset_wrong_current_secret [OF a m b known, where rqL = ?rqL and bL = ?bL
      and N = demo_nondet and NL = demo_nondet and rq' = ?ok and N' = demo_nondet
      and s' = registered_state]
  note D = T [THEN conjunct2, THEN mp, OF g]
  note U = T [THEN conjunct1, THEN mp, OF wrong]
  note A = U [THEN conjunct1]
  note B = U [THEN conjunct2, THEN conjunct1]
  note C = U [THEN conjunct2, THEN conjunct2, THEN mp, OF L]
  from A have "fst (fetch demo_env demo_nondet ?rq registered_state) =
                 error_response 401 ''Current password is incorrect''"
    by (simp only: fst_conv)
  with B C changed D show ?thesis by (intro conjI)
qed

text \<open>
  Claim C6. A reset without an \<open>Authorization\<close> header, or with one whose token is empty or
  not in \<open>activeSessions\<close>, is answered with 401 \<open>Authentication required\<close> and leaves
  the whole state as it was: no call is recorded, so the body has not been parsed, the database
  has been neither read nor written, and the set of sessions is the same. The answer does not
  depend on the body.
\<close>

theorem reset_unauthorized_before_body:
  assumes "req_method rq = ''POST''" and "pathname rq = ''/reset-password''"
    and "case authorization rq of None \<Rightarrow> True
         | Some a \<Rightarrow> replace_first ''Bearer '' a = [] \<or>
                    replace_first ''Bearer '' a \<notin> activeSessions s"
  shows "fetch E N rq s = (error_response 401 ''Authentication required'', s) \<and>
         fetch E N (rq\<lparr>json := j\<rparr>) s = fetch E N rq s"
proof -
  have "fetch E N (rq\<lparr>json := j\<rparr>) s = (error_response 401 ''Authentication required'', s)"
    using assms by (intro reset_unauthorized) simp_all
  with reset_unauthorized [OF assms, of E N] show ?thesis by simp
qed

theorem reset_unauthorized_before_body_witness:
  "fetch demo_env demo_nondet
     (post ''/reset-password'' (Some ''Bearer stale'') (reset_request ''a@b.com'' ''pw1'' ''pw2''))
     registered_state = (error_response 401 ''Authentication required'', registered_state) \<and>
   fetch demo_env demo_nondet
     (post ''/reset-password'' None (reset_request ''a@b.com'' ''pw1'' ''pw2''))
     registered_state = (error_response 401 ''Authentication required'', registered_state)"
proof -
  let ?b = "reset_request ''a@b.com'' ''pw1'' ''pw2''"
  let ?r1 = "post ''/reset-password'' (Some ''Bearer stale'') ?b"
  let ?r2 = "post ''/reset-password'' None ?b"
  have a: "req_method ?r1 = ''POST''" "pathname ?r1 = ''/reset-password''"
    and b: "req_method ?r2 = ''POST''" "pathname ?r2 = ''/reset-password''"
    by (simp_all add: post_def)
  have c1: "case authorization ?r1 of None \<Rightarrow> True
            | Some a \<Rightarrow> replace_first ''Bearer '' a = [] \<or>
                    replace_first ''Bearer '' a \<notin> activeSessions registered_state"
    by code_simp
  have c2: "case authorization ?r2 of None \<Rightarrow> True
            | Some a \<Rightarrow> replace_first ''Bearer '' a = [] \<or>
                    replace_first ''Bearer '' a \<notin> activeSessions registered_state"
    by (simp add: post_def)
  note A = reset_unauthorized_before_body [OF a c1, of demo_env demo_nondet, THEN conjunct1]
  note B = reset_unauthorized_before_body [OF b c2, of demo_env demo_nondet, THEN conjunct1]
  from A B show ?thesis by (intro conjI)
qed




section \<open>Sessions\<close>

lemma register_sessions:
  "activeSessions (snd (handle_register E N rq s)) \<subseteq> insert (createSessionToken N) (activeSessions s)"
  by (auto simp: handle_register_def io_defs Let_def
           split: option.splits if_splits js_value.splits)

lemma login_sessions:
  "activeSessions (snd (handle_login E N rq s)) \<subseteq> insert (createSessionToken N) (activeSessions s)"
  by (auto simp: handle_login_def io_defs Let_def
           split: option.splits if_splits js_value.splits)

lemma users_sessions:
  "activeSessions (snd (handle_users rq s)) = activeSessions s"
  by (auto simp: handle_users_def io_defs split: option.splits)

lemma reset_sessions:
  "activeSessions (snd (handle_reset_password E N rq s)) = activeSessions s"
  by (auto simp: handle_reset_password_def io_defs Let_def
           split: option.splits if_splits js_value.splits)

lemma logout_sessions:
  "activeSessions (snd (handle_logout rq s)) \<subseteq> activeSessions s"
  by (auto simp: handle_logout_def io_defs split: option.splits if_splits)

lemma test_hash_sessions:
  "activeSessions (snd (handle_test_hash E rq s)) = activeSessions s"
  by (auto simp: handle_test_hash_def toUpperCase_call_def io_defs
           split: option.splits if_splits js_value.splits)

lemma route_sessions:
  "activeSessions (snd (route E N rq s)) \<subseteq> insert (createSessionToken N) (activeSessions s)"
  using register_sessions [of E N rq s] login_sessions [of E N rq s] users_sessions [of rq s]
    reset_sessions [of E N rq s] logout_sessions [of rq s] test_hash_sessions [of E rq s]
  by (auto simp: route_def return_io_def)

lemma fetch_sessions_subset:
  "activeSessions (snd (fetch E N rq s)) \<subseteq> insert (createSessionToken N) (activeSessions s)"
proof (cases "route E N rq s")
  case (Pair r s')
  with route_sessions [of E N rq s] show ?thesis
    by (auto simp: fetch_def split: sum.splits)
qed

lemma digit36_base36: "isBase36 (digit36 d)"
proof -
  have "d mod 36 < length ''0123456789abcdefghijklmnopqrstuvwxyz''" by simp
  then have "''0123456789abcdefghijklmnopqrstuvwxyz'' ! (d mod 36)
               \<in> set ''0123456789abcdefghijklmnopqrstuvwxyz''"
    by (rule nth_mem)
  then show ?thesis unfolding isBase36_def digit36_def .
qed

lemma toString36_base36: "list_all isBase36 (toString36 n)"
proof (induction n rule: toString36.induct)
  case (1 n)
  show ?case
  proof (cases "n < 36")
    case True
    then show ?thesis by (subst toString36.simps) (simp add: digit36_base36)
  next
    case False
    with 1 have "list_all isBase36 (toString36 (n div 36))" by simp
    with False show ?thesis by (subst toString36.simps) (simp add: digit36_base36)
  qed
qed

lemma token_base36:
  assumes "random36_ok (Math_random_36 N)"
  shows "list_all isBase36 (createSessionToken N)"
proof -
  from assms have "list_all isBase36 (drop 2 (Math_random_36 N))"
    by (auto simp: random36_ok_def)
  then show ?thesis by (simp add: createSessionToken_def toString36_base36)
qed

lemma reachable_tokens:
  "reachable E s \<Longrightarrow> t \<in> activeSessions s \<Longrightarrow> t \<noteq> [] \<and> list_all isBase36 t"
proof (induction arbitrary: t rule: reachable.induct)
  case (start s)
  then show ?case by simp
next
  case (serve s N request)
  from serve.prems fetch_sessions_subset [of E N request s]
  have "t = createSessionToken N \<or> t \<in> activeSessions s" by auto
  then show ?case
  proof
    assume "t = createSessionToken N"
    with serve.hyps(2) show ?thesis by (simp add: token_base36 createSessionToken_nonempty)
  next
    assume "t \<in> activeSessions s"
    then show ?thesis by (rule serve.IH)
  qed
qed

lemma base36_keeps_header:
  assumes "list_all isBase36 t"
  shows "replace_first ''Bearer '' t = t"
proof -
  have nb: "\<not> isBase36 (CHR ''B'')" by (simp add: isBase36_def)
  have "CHR ''B'' \<notin> set t"
  proof
    assume "CHR ''B'' \<in> set t"
    with assms have "isBase36 (CHR ''B'')" unfolding list_all_iff by blast
    with nb show False by contradiction
  qed
  then show ?thesis by (rule replace_first_absent)
qed

text \<open>
  Claim C4. The token in the answer to a successful registration or login is in
  \<open>activeSessions\<close> at once and opens \<open>/users\<close>; a logout with \<open>Bearer\<close> and a token of
  the set answers 200 and removes the token, after which the token no longer opens \<open>/users\<close>
  and the same logout is answered with 400 \<open>No active session found\<close>; a logout without a
  header or with a token that is not in the set is answered with 400
  \<open>No active session found\<close> as well, not with 401.
\<close>

theorem session_token_lifecycle:
  "(req_method rq = ''POST'' \<and> (pathname rq = ''/register'' \<or> pathname rq = ''/login'') \<and>
    status (fst (fetch E N rq s)) = 200 \<longrightarrow>
      map_option (\<lambda>v. get_prop v ''sessionId'') (body (fst (fetch E N rq s))) =
        Some (str (createSessionToken N)) \<and>
      createSessionToken N \<noteq> [] \<and>
      createSessionToken N \<in> activeSessions (snd (fetch E N rq s)) \<and>
      status (fst (fetch E N' (get_users (Some (''Bearer '' @ createSessionToken N)))
                     (snd (fetch E N rq s)))) = 200) \<and>
   (t \<noteq> [] \<and> t \<in> activeSessions s \<and> req_method out = ''POST'' \<and> pathname out = ''/logout'' \<and>
    authorization out = Some (''Bearer '' @ t) \<longrightarrow>
      fst (fetch E N out s) =
        json_response 200
          (obj [(''success'', JBool True), (''message'', str ''Logged out successfully'')]) \<and>
      activeSessions (snd (fetch E N out s)) = activeSessions s - {t} \<and>
      t \<notin> activeSessions (snd (fetch E N out s)) \<and>
      status (fst (fetch E N' (get_users (Some (''Bearer '' @ t))) (snd (fetch E N out s)))) = 401 \<and>
      fetch E N' out (snd (fetch E N out s)) =
        (error_response 400 ''No active session found'', snd (fetch E N out s))) \<and>
   (req_method out = ''POST'' \<and> pathname out = ''/logout'' \<and>
    (case authorization out of None \<Rightarrow> True
     | Some a \<Rightarrow> replace_first ''Bearer '' a = [] \<or> replace_first ''Bearer '' a \<notin> activeSessions s)
    \<longrightarrow> fetch E N out s = (error_response 400 ''No active session found'', s))"
proof (intro conjI impI)
  have strip: "replace_first ''Bearer '' (''Bearer '' @ x) = x" for x
    by (rule replace_first_prefix) simp
  {
    assume a: "req_method rq = ''POST'' \<and> (pathname rq = ''/register'' \<or> pathname rq = ''/login'') \<and>
      status (fst (fetch E N rq s)) = 200"
    then have i: "map_option (\<lambda>v. get_prop v ''sessionId'') (body (fst (fetch E N rq s))) =
           Some (str (createSessionToken N)) \<and>
         activeSessions (snd (fetch E N rq s)) = insert (createSessionToken N) (activeSessions s)"
      by (intro issue_on_success) simp_all
    then show "map_option (\<lambda>v. get_prop v ''sessionId'') (body (fst (fetch E N rq s))) =
        Some (str (createSessionToken N))" by simp
    show ne: "createSessionToken N \<noteq> []" by (rule createSessionToken_nonempty)
    from i show m: "createSessionToken N \<in> activeSessions (snd (fetch E N rq s))" by simp
    let ?g = "get_users (Some (''Bearer '' @ createSessionToken N))"
    have "fetch E N' ?g (snd (fetch E N rq s)) =
           (json_response 200
              (obj [(''success'', JBool True),
                (''message'', str ''All users retrieved (showing hashed data for security proof)''),
                (''users'', JArr (map user_json (users (snd (fetch E N rq s))))),
                (''total_users'', JNum (int (length (users (snd (fetch E N rq s)))))),
                (''security_note'',
                   str ''Emails: SHA-256 + deterministic salt, Passwords: Argon2id + random salt'')]),
            (snd (fetch E N rq s))\<lparr>trace := trace (snd (fetch E N rq s)) @ [GetAllUsers]\<rparr>)"
    proof (rule users_authenticated)
      show "req_method ?g = ''GET''" "pathname ?g = ''/users''"
        "authorization ?g = Some (''Bearer '' @ createSessionToken N)"
        by (simp_all add: get_users_def)
      show "replace_first ''Bearer '' (''Bearer '' @ createSessionToken N) \<noteq> []"
        unfolding strip by (rule ne)
      show "replace_first ''Bearer '' (''Bearer '' @ createSessionToken N)
              \<in> activeSessions (snd (fetch E N rq s))"
        unfolding strip by (rule m)
    qed
    then show "status (fst (fetch E N' ?g (snd (fetch E N rq s)))) = 200"
      by (simp add: json_response_def)
  }
  {
    assume b: "t \<noteq> [] \<and> t \<in> activeSessions s \<and> req_method out = ''POST'' \<and>
      pathname out = ''/logout'' \<and> authorization out = Some (''Bearer '' @ t)"
    then have f: "fetch E N out s =
           (json_response 200
              (obj [(''success'', JBool True), (''message'', str ''Logged out successfully'')]),
            s\<lparr>activeSessions := activeSessions s - {t}, trace := trace s @ [SessionDelete t]\<rparr>)"
      by (intro logout_valid [where a = "''Bearer '' @ t"] strip) simp_all
    then show "fst (fetch E N out s) =
        json_response 200
          (obj [(''success'', JBool True), (''message'', str ''Logged out successfully'')])"
      by simp
    from f show "activeSessions (snd (fetch E N out s)) = activeSessions s - {t}" by simp
    from f show gone: "t \<notin> activeSessions (snd (fetch E N out s))" by simp
    let ?g = "get_users (Some (''Bearer '' @ t))"
    have "fetch E N' ?g (snd (fetch E N out s)) =
            (error_response 401 ''Authentication required'', snd (fetch E N out s))"
    proof (rule users_unauthenticated)
      show "req_method ?g = ''GET''" "pathname ?g = ''/users''" by (simp_all add: get_users_def)
      have "authorization ?g = Some (''Bearer '' @ t)" by (simp add: get_users_def)
      then show "case authorization ?g of None \<Rightarrow> True
        | Some a \<Rightarrow> replace_first ''Bearer '' a = [] \<or>
                   replace_first ''Bearer '' a \<notin> activeSessions (snd (fetch E N out s))"
        using gone by (simp add: strip del: replace_first.simps append.simps)
    qed
    then show "status (fst (fetch E N' ?g (snd (fetch E N out s)))) = 401"
      by (simp add: response_defs)
    show "fetch E N' out (snd (fetch E N out s)) =
        (error_response 400 ''No active session found'', snd (fetch E N out s))"
    proof (rule logout_invalid)
      from b show "req_method out = ''POST''" "pathname out = ''/logout''" by simp_all
      from b have "authorization out = Some (''Bearer '' @ t)" by simp
      then show "case authorization out of None \<Rightarrow> True
        | Some a \<Rightarrow> replace_first ''Bearer '' a = [] \<or>
                   replace_first ''Bearer '' a \<notin> activeSessions (snd (fetch E N out s))"
        using gone by (simp add: strip del: replace_first.simps append.simps)
    qed
  }
  assume "req_method out = ''POST'' \<and> pathname out = ''/logout'' \<and>
    (case authorization out of None \<Rightarrow> True
     | Some a \<Rightarrow> replace_first ''Bearer '' a = [] \<or> replace_first ''Bearer '' a \<notin> activeSessions s)"
  then show "fetch E N out s = (error_response 400 ''No active session found'', s)"
    by (intro logout_invalid) simp_all
qed

theorem session_token_lifecycle_witness:
  "createSessionToken demo_nondet \<in> activeSessions registered_state \<and>
   fst (fetch demo_env demo_nondet (post ''/logout'' (Some ''Bearer 4fzyo82mvyrz'') JNull)
          registered_state) =
     json_response 200
       (obj [(''success'', JBool True), (''message'', str ''Logged out successfully'')]) \<and>
   ''4fzyo82mvyrz'' \<notin>
     activeSessions (snd (fetch demo_env demo_nondet
                            (post ''/logout'' (Some ''Bearer 4fzyo82mvyrz'') JNull)
                            registered_state)) \<and>
   fst (fetch demo_env demo_nondet (post ''/logout'' (Some ''Bearer 4fzyo82mvyrz'') JNull)
          (snd (fetch demo_env demo_nondet
                  (post ''/logout'' (Some ''Bearer 4fzyo82mvyrz'') JNull) registered_state))) =
     error_response 400 ''No active session found'' \<and>
   fetch demo_env demo_nondet (post ''/logout'' None JNull) registered_state =
     (error_response 400 ''No active session found'', registered_state)"
proof -
  let ?rq = "post ''/register'' None (credentials ''a@b.com'' ''pw1'')"
  let ?out = "post ''/logout'' (Some ''Bearer 4fzyo82mvyrz'') JNull"
  let ?out2 = "post ''/logout'' None JNull"
  have g1: "req_method ?rq = ''POST'' \<and> (pathname ?rq = ''/register'' \<or> pathname ?rq = ''/login'') \<and>
    status (fst (fetch demo_env demo_nondet ?rq empty_state)) = 200"
    by code_simp
  have g2: "''4fzyo82mvyrz'' \<noteq> [] \<and> ''4fzyo82mvyrz'' \<in> activeSessions registered_state \<and>
    req_method ?out = ''POST'' \<and> pathname ?out = ''/logout'' \<and>
    authorization ?out = Some (''Bearer '' @ ''4fzyo82mvyrz'')"
    by code_simp
  have g3: "req_method ?out2 = ''POST'' \<and> pathname ?out2 = ''/logout'' \<and>
    (case authorization ?out2 of None \<Rightarrow> True
     | Some a \<Rightarrow> replace_first ''Bearer '' a = [] \<or>
                replace_first ''Bearer '' a \<notin> activeSessions registered_state)"
    by (simp add: post_def)
  note T1 = session_token_lifecycle [where rq = ?rq and E = demo_env and N = demo_nondet
      and s = empty_state, THEN conjunct1, THEN mp, OF g1]
  note T2 = session_token_lifecycle [where out = ?out and E = demo_env and N = demo_nondet
      and N' = demo_nondet and s = registered_state and t = "''4fzyo82mvyrz''",
      THEN conjunct2, THEN conjunct1, THEN mp, OF g2]
  note T3 = session_token_lifecycle [where out = ?out2 and E = demo_env and N = demo_nondet
      and s = registered_state, THEN conjunct2, THEN conjunct2, THEN mp, OF g3]
  from T1 have c1: "createSessionToken demo_nondet \<in> activeSessions registered_state"
    unfolding registered_state_def by blast
  note c2 = T2 [THEN conjunct1]
  note c3 = T2 [THEN conjunct2, THEN conjunct2, THEN conjunct1]
  from T2 have "fetch demo_env demo_nondet ?out (snd (fetch demo_env demo_nondet ?out registered_state)) =
        (error_response 400 ''No active session found'',
         snd (fetch demo_env demo_nondet ?out registered_state))"
    by blast
  then have c4: "fst (fetch demo_env demo_nondet ?out
                        (snd (fetch demo_env demo_nondet ?out registered_state))) =
                 error_response 400 ''No active session found''"
    by (simp only: fst_conv)
  from c1 c2 c3 c4 T3 show ?thesis by (intro conjI)
qed

text \<open>
  Claim C10. The token is read off the header by taking out the first occurrence of
  \<open>Bearer \<close>, wherever it is. In every state the server reaches, a header that is exactly a
  token of \<open>activeSessions\<close>, without the prefix, opens \<open>/users\<close>, passes the check of
  \<open>/reset-password\<close> and logs out on \<open>/logout\<close>; and a header \<open>pre @ "Bearer " @ rest\<close>
  in which no occurrence starts inside \<open>pre\<close> gives the token \<open>pre @ rest\<close>.
\<close>

theorem bearer_prefix_not_required:
  assumes "reachable E s" and "t \<in> activeSessions s" and "authorization rq = Some t"
  shows
    "(req_method rq = ''GET'' \<and> pathname rq = ''/users'' \<longrightarrow>
        status (fst (fetch E N rq s)) = 200) \<and>
     (req_method rq = ''POST'' \<and> pathname rq = ''/reset-password'' \<longrightarrow>
        fst (fetch E N rq s) \<noteq> error_response 401 ''Authentication required'') \<and>
     (req_method rq = ''POST'' \<and> pathname rq = ''/logout'' \<longrightarrow>
        fst (fetch E N rq s) =
          json_response 200
            (obj [(''success'', JBool True), (''message'', str ''Logged out successfully'')]) \<and>
        activeSessions (snd (fetch E N rq s)) = activeSessions s - {t}) \<and>
     ((\<forall>i<length pre. take 7 (drop i (pre @ ''Bearer '' @ rest)) \<noteq> ''Bearer '') \<longrightarrow>
        sessionToken_of (rq\<lparr>authorization := Some (pre @ ''Bearer '' @ rest)\<rparr>) = Some (pre @ rest))"
proof -
  from reachable_tokens [OF assms(1,2)] have ne: "t \<noteq> []" and b36: "list_all isBase36 t"
    by simp_all
  from b36 have same: "replace_first ''Bearer '' t = t" by (rule base36_keeps_header)
  from same ne have tok: "replace_first ''Bearer '' t \<noteq> []" by simp
  from same assms(2) have mem: "replace_first ''Bearer '' t \<in> activeSessions s" by simp
  have 1: "status (fst (fetch E N rq s)) = 200"
    if "req_method rq = ''GET'' \<and> pathname rq = ''/users''"
    using users_authenticated [OF _ _ assms(3) tok mem, of E N] that
    by (simp add: json_response_def)
  have 2: "fst (fetch E N rq s) \<noteq> error_response 401 ''Authentication required''"
    if "req_method rq = ''POST'' \<and> pathname rq = ''/reset-password''"
    using reset_passes_authorization [OF _ _ assms(3) tok mem, of E N] that by simp
  have 3: "fst (fetch E N rq s) =
          json_response 200
            (obj [(''success'', JBool True), (''message'', str ''Logged out successfully'')]) \<and>
        activeSessions (snd (fetch E N rq s)) = activeSessions s - {t}"
    if "req_method rq = ''POST'' \<and> pathname rq = ''/logout''"
    using logout_valid [OF _ _ assms(3) same ne assms(2), of E N] that by simp
  have 4: "sessionToken_of (rq\<lparr>authorization := Some (pre @ ''Bearer '' @ rest)\<rparr>) = Some (pre @ rest)"
    if first: "\<forall>i<length pre. take 7 (drop i (pre @ ''Bearer '' @ rest)) \<noteq> ''Bearer ''"
  proof -
    have l: "length ''Bearer '' = 7" by simp
    have "replace_first ''Bearer '' (pre @ ''Bearer '' @ rest) = pre @ rest"
    proof (rule replace_first_first_occurrence)
      show "''Bearer '' \<noteq> []" by simp
      show "\<forall>i<length pre. take (length ''Bearer '') (drop i (pre @ ''Bearer '' @ rest)) \<noteq> ''Bearer ''"
        unfolding l using first .
    qed
    then show ?thesis by (simp add: sessionToken_of_def)
  qed
  from 1 2 3 4 show ?thesis by blast
qed

theorem bearer_prefix_not_required_witness:
  "status (fst (fetch demo_env demo_nondet (get_users (Some ''4fzyo82mvyrz'')) registered_state)) = 200 \<and>
   fst (fetch demo_env demo_nondet
          (post ''/reset-password'' (Some ''4fzyo82mvyrz'') (reset_request ''a@b.com'' ''pw1'' ''pw2''))
          registered_state) \<noteq> error_response 401 ''Authentication required'' \<and>
   activeSessions (snd (fetch demo_env demo_nondet (post ''/logout'' (Some ''4fzyo82mvyrz'') JNull)
                          registered_state)) = activeSessions registered_state - {''4fzyo82mvyrz''} \<and>
   sessionToken_of (get_users (Some ''xBearer Bearer y'')) = Some ''xBearer y''"
proof -
  have r0: "random36_ok (Math_random_36 demo_nondet)" by code_simp
  have "reachable demo_env empty_state"
    by (rule reachable.start) (simp add: empty_state_def)
  then have r: "reachable demo_env registered_state"
    unfolding registered_state_def using r0 by (rule reachable.serve)
  have m: "''4fzyo82mvyrz'' \<in> activeSessions registered_state" by code_simp
  let ?r1 = "get_users (Some ''4fzyo82mvyrz'')"
  let ?r2 = "post ''/reset-password'' (Some ''4fzyo82mvyrz'') (reset_request ''a@b.com'' ''pw1'' ''pw2'')"
  let ?r3 = "post ''/logout'' (Some ''4fzyo82mvyrz'') JNull"
  have a1: "authorization ?r1 = Some ''4fzyo82mvyrz''"
    and g1: "req_method ?r1 = ''GET'' \<and> pathname ?r1 = ''/users''"
    by (simp_all add: get_users_def)
  have a2: "authorization ?r2 = Some ''4fzyo82mvyrz''"
    and g2: "req_method ?r2 = ''POST'' \<and> pathname ?r2 = ''/reset-password''"
    by (simp_all add: post_def)
  have a3: "authorization ?r3 = Some ''4fzyo82mvyrz''"
    and g3: "req_method ?r3 = ''POST'' \<and> pathname ?r3 = ''/logout''"
    by (simp_all add: post_def)
  have g4: "\<forall>i<length ''x''. take 7 (drop i (''x'' @ ''Bearer '' @ ''Bearer y'')) \<noteq> ''Bearer ''"
    by simp
  note T1 = bearer_prefix_not_required [OF r m a1, where N = demo_nondet and pre = "''x''"
      and rest = "''Bearer y''"]
  note T2 = bearer_prefix_not_required [OF r m a2, where N = demo_nondet]
  note T3 = bearer_prefix_not_required [OF r m a3, where N = demo_nondet]
  note c1 = T1 [THEN conjunct1, THEN mp, OF g1]
  note c2 = T2 [THEN conjunct2, THEN conjunct1, THEN mp, OF g2]
  note c3 = T3 [THEN conjunct2, THEN conjunct2, THEN conjunct1, THEN mp, OF g3, THEN conjunct2]
  note c4 = T1 [THEN conjunct2, THEN conjunct2, THEN conjunct2, THEN mp, OF g4]
  have "get_users (Some ''4fzyo82mvyrz'')\<lparr>authorization := Some (''x'' @ ''Bearer '' @ ''Bearer y'')\<rparr>
          = get_users (Some ''xBearer Bearer y'')"
    by (simp add: get_users_def)
  with c4 have c4': "sessionToken_of (get_users (Some ''xBearer Bearer y'')) = Some ''xBearer y''"
    by simp
  from c1 c2 c3 c4' show ?thesis by (intro conjI)
qed

section \<open>The debug endpoint\<close>

lemma test_hash_result:
  assumes "req_method rq = ''POST''" and "pathname rq = ''/debug/test-hash''"
    and "json rq = Some b" and "get_prop b ''email'' = JStr e" and "e \<noteq> []"
  shows "fetch E N rq s =
           (json_response 200
              (obj [(''email'', JStr e),
                     (''hash1'', str (createEmailHash E e)),
                     (''hash2'', str (createEmailHash E e)),
                     (''hash3'', str (createEmailHash E (toUpperCase E e))),
                     (''same_email_same_hash'', JBool True),
                     (''case_insensitive'',
                        JBool (createEmailHash E e = createEmailHash E (toUpperCase E e))),
                     (''deterministic'',
                        JBool (createEmailHash E e = createEmailHash E (toUpperCase E e))),
                     (''message'',
                        str (if createEmailHash E e = createEmailHash E (toUpperCase E e)
                              then ''Email hashing is working correctly''
                              else ''Email hashing has issues''))]),
            s\<lparr>trace := trace s @ [ParseRequestBody, CreateEmailHash e, CreateEmailHash e,
                                   CreateEmailHash (toUpperCase E e)]\<rparr>)"
  using assms by (simp add: fetch_def route_def handle_test_hash_def toUpperCase_call_def io_defs)

text \<open>
  Claim C9. \<open>POST /debug/test-hash\<close> reads neither the \<open>Authorization\<close> header nor
  \<open>activeSessions\<close>: for every request whose body has a non-empty string as \<open>email\<close>, the
  answer is 200 and carries, as \<open>hash1\<close>, \<open>createEmailHash\<close> of that e-mail under the salt
  of the process; and the answer is the same under any other header and any other set of
  sessions.
\<close>

theorem test_hash_unauthenticated:
  assumes "req_method rq = ''POST''" and "pathname rq = ''/debug/test-hash''"
    and "json rq = Some b" and "get_prop b ''email'' = JStr e" and "e \<noteq> []"
  shows "status (fst (fetch E N rq s)) = 200 \<and>
         map_option (\<lambda>v. get_prop v ''hash1'') (body (fst (fetch E N rq s))) =
           Some (str (createEmailHash E e)) \<and>
         fst (fetch E N' (rq\<lparr>authorization := h\<rparr>) (s\<lparr>activeSessions := A\<rparr>)) =
           fst (fetch E N rq s) \<and>
         users (snd (fetch E N rq s)) = users s \<and>
         activeSessions (snd (fetch E N rq s)) = activeSessions s"
proof -
  note r = test_hash_result [OF assms, of E N s]
  have "fetch E N' (rq\<lparr>authorization := h\<rparr>) (s\<lparr>activeSessions := A\<rparr>) =
          (fst (fetch E N rq s),
           s\<lparr>activeSessions := A,
             trace := trace s @ [ParseRequestBody, CreateEmailHash e, CreateEmailHash e,
                                  CreateEmailHash (toUpperCase E e)]\<rparr>)"
    using assms by (subst test_hash_result [where b = b and e = e]) (simp_all add: r)
  then show ?thesis by (simp add: r json_response_def)
qed

theorem test_hash_unauthenticated_witness:
  "status (fst (fetch demo_env demo_nondet
                  (post ''/debug/test-hash'' None (obj [(''email'', str ''a@b.com'')]))
                  empty_state)) = 200 \<and>
   map_option (\<lambda>v. get_prop v ''hash1'')
     (body (fst (fetch demo_env demo_nondet
                   (post ''/debug/test-hash'' None (obj [(''email'', str ''a@b.com'')]))
                   empty_state))) = Some (str (createEmailHash demo_env (utf16 ''a@b.com'')))"
proof -
  let ?b = "obj [(''email'', str ''a@b.com'')]"
  let ?rq = "post ''/debug/test-hash'' None ?b"
  have a: "req_method ?rq = ''POST''" "pathname ?rq = ''/debug/test-hash''" "json ?rq = Some ?b"
    "get_prop ?b ''email'' = JStr (utf16 ''a@b.com'')" "utf16 ''a@b.com'' \<noteq> []"
    by (simp_all add: post_def str_def)
  note T = test_hash_unauthenticated [OF a, of demo_env demo_nondet empty_state]
  from T [THEN conjunct1] T [THEN conjunct2, THEN conjunct1] show ?thesis by (intro conjI)
qed

end
